(* ===== verification/Validate_Prelude.thy ===== *)
theory Validate_Prelude
  imports Main "HOL-Library.Sublist" "HOL-Library.Word"
begin

text \<open>
  Shared vocabulary of the development.

  \<^item> JavaScript strings are sequences of 16-bit code units: \<open>js_string\<close> is
    \<open>16 word list\<close>.  Every string literal of \<^verbatim>\<open>src/validate.js\<close> is ASCII, so
    a literal is written \<open>js ''Title''\<close>: each \<open>char\<close> becomes the code unit with
    the same number.  \<open>js\<close> is injective and commutes with concatenation, so
    facts about literals can be computed on \<open>string\<close> and moved to \<open>js_string\<close>.
  \<^item> The abstract notion of "occurs in" is \<open>sublist\<close> of \<open>HOL-Library.Sublist\<close>;
    the lemmas below restate it by positions (\<open>take\<close>/\<open>drop\<close>), which is the shape
    the string search of \<open>JS_String\<close> works with.
  \<^item> \<open>first_failing\<close> is the abstract "first element of a list that fails a test",
    the contract of the validation loop.
  \<^item> The collections \<open>js_defs\<close> (unfoldings of the JavaScript value model) and
    \<open>run_simps\<close> (equations that evaluate a run of the script) are filled by
    the component theories.
\<close>

named_theorems js_defs "definitions of the JavaScript value model, for unfolding"
named_theorems run_simps "equations that evaluate the script and its loop"

section \<open>Code units and string literals\<close>

type_synonym code_unit = "16 word"

type_synonym js_string = "code_unit list"

definition code_unit_of :: "char \<Rightarrow> code_unit" where
  "code_unit_of c = word_of_nat (of_char c)"

definition js :: "string \<Rightarrow> js_string" where
  "js s = map code_unit_of s"

section \<open>The first element that fails a test\<close>

primrec first_failing :: "('a \<Rightarrow> bool) \<Rightarrow> 'a list \<Rightarrow> 'a option" where
  "first_failing P [] = None"
| "first_failing P (x # xs) = (if P x then first_failing P xs else Some x)"

section \<open>Lemmas on code units and literals\<close>

lemma unat_code_unit_of: "unat (code_unit_of c) = of_char c"
proof -
  have "(of_char c :: nat) < 256"
    by simp
  also have "(256 :: nat) < 2 ^ LENGTH(16)"
    by simp
  finally show ?thesis
    by (simp add: code_unit_of_def unat_of_nat)
qed

lemma code_unit_of_eq_iff [simp]: "code_unit_of c = code_unit_of d \<longleftrightarrow> c = d"
proof
  assume "code_unit_of c = code_unit_of d"
  then have "unat (code_unit_of c) = unat (code_unit_of d)"
    by simp
  then have "(of_char c :: nat) = of_char d"
    by (simp only: unat_code_unit_of)
  then show "c = d"
    by simp
qed simp

lemma inj_code_unit_of: "inj code_unit_of"
  by (rule injI) simp

lemma code_unit_of_ascii_bound: "unat (code_unit_of c) < 256"
  by (simp add: unat_code_unit_of)

lemma js_Nil [simp]: "js [] = []"
  by (simp add: js_def)

lemma js_Cons [simp]: "js (c # s) = code_unit_of c # js s"
  by (simp add: js_def)

lemma js_append [simp]: "js (s @ t) = js s @ js t"
  by (simp add: js_def)

lemma length_js [simp]: "length (js s) = length s"
  by (simp add: js_def)

lemma js_eq_iff [simp]: "js s = js t \<longleftrightarrow> s = t"
  by (simp add: js_def inj_map_eq_map [OF inj_code_unit_of])

lemma js_eq_Nil_iff [simp]: "js s = [] \<longleftrightarrow> s = []"
  by (simp add: js_def)

lemma inj_js: "inj js"
  by (rule injI) simp

lemma take_js: "take n (js s) = js (take n s)"
  by (simp add: js_def take_map)

lemma drop_js: "drop n (js s) = js (drop n s)"
  by (simp add: js_def drop_map)

lemma set_js: "set (js s) = code_unit_of ` set s"
  by (simp add: js_def)

section \<open>Lemmas on sublists\<close>

lemma sublist_at_position:
  "take (length xs) (drop i ys) = xs \<Longrightarrow> sublist xs ys"
  by (metis append_take_drop_id sublist_appendI)

lemma sublist_iff_take_drop:
  "sublist xs ys \<longleftrightarrow> (\<exists>i. i + length xs \<le> length ys \<and> take (length xs) (drop i ys) = xs)"
proof
  assume "sublist xs ys"
  then obtain ps ss where "ys = ps @ xs @ ss"
    by (auto simp: sublist_def)
  then have "length ps + length xs \<le> length ys \<and> take (length xs) (drop (length ps) ys) = xs"
    by simp
  then show "\<exists>i. i + length xs \<le> length ys \<and> take (length xs) (drop i ys) = xs"
    by blast
next
  assume "\<exists>i. i + length xs \<le> length ys \<and> take (length xs) (drop i ys) = xs"
  then show "sublist xs ys"
    by (blast intro: sublist_at_position)
qed

lemma sublist_map_inj:
  assumes "inj f"
  shows "sublist (map f xs) (map f ys) \<longleftrightarrow> sublist xs ys"
proof
  assume "sublist (map f xs) (map f ys)"
  then obtain xs' where "sublist xs' ys" and "map f xs = map f xs'"
    using sublist_map_rightE by blast
  with assms show "sublist xs ys"
    by simp
qed (rule map_mono_sublist)

lemma sublist_js_iff [simp]: "sublist (js s) (js t) \<longleftrightarrow> sublist s t"
  by (simp add: js_def sublist_map_inj [OF inj_code_unit_of])

lemma sublist_trans: "sublist xs ys \<Longrightarrow> sublist ys zs \<Longrightarrow> sublist xs zs"
  by (rule sublist_order.order.trans)

lemma sublist_drop_trans: "sublist xs (drop n ys) \<Longrightarrow> sublist xs ys"
  by (rule sublist_trans [OF _ sublist_drop])

lemma sublist_in_concat: "x \<in> set xss \<Longrightarrow> sublist x (concat xss)"
proof (induction xss)
  case Nil
  then show ?case by simp
next
  case (Cons y xss)
  show ?case
  proof (cases "x = y")
    case True
    then show ?thesis by simp
  next
    case False
    with Cons have "sublist x (concat xss)" by simp
    then have "sublist x (y @ concat xss)"
      by (rule sublist_trans) simp
    then show ?thesis by simp
  qed
qed

section \<open>Lemmas on the first failing element\<close>

lemma first_failing_None_iff: "first_failing P xs = None \<longleftrightarrow> list_all P xs"
  by (induction xs) auto

lemma Cons_eq_split_iff:
  "(\<exists>pre post. y # ys = pre @ x # post \<and> A pre) \<longleftrightarrow>
     y = x \<and> A [] \<or> (\<exists>pre post. ys = pre @ x # post \<and> A (y # pre))"
proof
  assume "\<exists>pre post. y # ys = pre @ x # post \<and> A pre"
  then obtain pre post where "y # ys = pre @ x # post" and "A pre"
    by blast
  then show "y = x \<and> A [] \<or> (\<exists>pre post. ys = pre @ x # post \<and> A (y # pre))"
    by (cases pre) auto
next
  assume "y = x \<and> A [] \<or> (\<exists>pre post. ys = pre @ x # post \<and> A (y # pre))"
  then show "\<exists>pre post. y # ys = pre @ x # post \<and> A pre"
    by (metis append_Cons append_Nil)
qed

lemma first_failing_Some_iff:
  "first_failing P xs = Some x \<longleftrightarrow>
     (\<exists>pre post. xs = pre @ x # post \<and> list_all P pre \<and> \<not> P x)"
proof (induction xs)
  case Nil
  then show ?case by simp
next
  case (Cons y ys)
  from Cons_eq_split_iff [of y ys x "\<lambda>pre. list_all P pre \<and> \<not> P x"] Cons.IH
  show ?case
    by auto
qed

lemma first_failing_cong:
  "(\<And>x. x \<in> set xs \<Longrightarrow> P x \<longleftrightarrow> Q x) \<Longrightarrow> first_failing P xs = first_failing Q xs"
  by (induction xs) simp_all

lemma first_failing_eq_find: "first_failing P xs = find (\<lambda>x. \<not> P x) xs"
  by (induction xs) auto

lemma first_failing_in_set: "first_failing P xs = Some x \<Longrightarrow> x \<in> set xs \<and> \<not> P x"
  by (auto simp: first_failing_Some_iff)

lemma first_failing_mono:
  "(\<And>x. x \<in> set xs \<Longrightarrow> P x \<Longrightarrow> Q x) \<Longrightarrow> first_failing P xs = None \<Longrightarrow>
   first_failing Q xs = None"
  by (auto simp: first_failing_None_iff list_all_iff)

section \<open>Properties of literals\<close>


end
