(* ===== verification/JS_String.thy ===== *)
theory JS_String
  imports Validate_Prelude
begin

text \<open>
  The one string operation the script uses: \<^verbatim>\<open>content.includes(section)\<close>
  (\<^verbatim>\<open>src/validate.js\<close>, line 17).

  \<open>includes_str\<close> is the call as the script makes it (\<open>includes\<close> is a reserved
  word of the proof language), with the optional position
  left out; \<open>includes_from\<close> is the method with its position argument, clamped to
  the length of the receiver; both go through \<open>StringIndexOf\<close>, the search that
  tries every start index in ascending order and compares the candidate
  \<open>substring\<close> with the search value.  The search is a \<^theory_text>\<open>function\<close> whose
  termination measure is the distance of the index from the end of the string.
  The language's bound \<open>i \<le> len - searchLen\<close> is written \<open>i + searchLen \<le> len\<close>,
  because the difference can be negative and subtraction on \<open>nat\<close> stops at 0.
  The definitions are polymorphic in the element type; the script uses them on
  \<open>js_string\<close>.

  \<open>occurs_at\<close> is the specification: the search value stands at a position of
  the string.  The lemmas show that \<open>StringIndexOf\<close> returns the least position
  at or after the start index where the value occurs, that it returns nothing
  exactly when there is none, and that \<open>includes_str\<close> is the relation \<open>sublist\<close>
  of the library; the facts on \<open>sublist\<close> then carry every later proof.

  \<open>overlaps a b\<close> says that two strings could share code units in some text:
  a nonempty end of \<open>a\<close> begins \<open>b\<close>, or \<open>b\<close> begins at some place inside \<open>a\<close>.
  \<open>overlap_free\<close> is a list of distinct strings no two of which overlap;
  \<open>interval\<close> is the set of indices an occurrence covers.  The lemmas show that
  occurrences of strings that do not overlap cover disjoint intervals, so a
  text that includes all strings of an overlap-free list is at least as long as
  all of them together.
\<close>

section \<open>Definitions\<close>

definition substring :: "'a list \<Rightarrow> nat \<Rightarrow> nat \<Rightarrow> 'a list" where
  "substring S inclusiveStart exclusiveEnd =
     take (exclusiveEnd - inclusiveStart) (drop inclusiveStart S)"

function StringIndexOf :: "'a list \<Rightarrow> 'a list \<Rightarrow> nat \<Rightarrow> nat option" where
  "StringIndexOf string searchValue fromIndex =
     (if searchValue = [] \<and> fromIndex \<le> length string then Some fromIndex
      else if fromIndex + length searchValue \<le> length string then
        (if substring string fromIndex (fromIndex + length searchValue) = searchValue
         then Some fromIndex
         else StringIndexOf string searchValue (Suc fromIndex))
      else None)"
  by pat_completeness auto
termination
  by (relation "measure (\<lambda>(string, searchValue, fromIndex). length string - fromIndex)")
    (auto simp: neq_Nil_conv)

definition includes_from :: "'a list \<Rightarrow> 'a list \<Rightarrow> nat \<Rightarrow> bool" where
  "includes_from S searchString position =
     (let len = length S;
          start = min position len
      in StringIndexOf S searchString start \<noteq> None)"

definition includes_str :: "'a list \<Rightarrow> 'a list \<Rightarrow> bool" where
  "includes_str S searchString = includes_from S searchString 0"

definition occurs_at :: "'a list \<Rightarrow> 'a list \<Rightarrow> nat \<Rightarrow> bool" where
  "occurs_at v s k \<longleftrightarrow> k + length v \<le> length s \<and> take (length v) (drop k s) = v"

fun overlaps :: "'a list \<Rightarrow> 'a list \<Rightarrow> bool" where
  "overlaps [] b = False"
| "overlaps (x # xs) b = (prefix (x # xs) b \<or> prefix b (x # xs) \<or> overlaps xs b)"

definition interval :: "nat \<Rightarrow> 'a list \<Rightarrow> nat set" where
  "interval p v = {p..<p + length v}"

definition overlap_free :: "'a list list \<Rightarrow> bool" where
  "overlap_free names \<longleftrightarrow>
     distinct names \<and> list_all (\<lambda>a. list_all (\<lambda>b. a = b \<or> \<not> overlaps a b) names) names"

declare StringIndexOf.simps [simp del]

lemmas [js_defs] = substring_def includes_from_def includes_str_def

section \<open>Occurrences\<close>

lemma occurs_at_Nil [simp]: "occurs_at [] s k \<longleftrightarrow> k \<le> length s"
  by (simp add: occurs_at_def)

lemma occurs_at_substring:
  "k + length v \<le> length s \<Longrightarrow> occurs_at v s k \<longleftrightarrow> substring s k (k + length v) = v"
  by (simp add: occurs_at_def substring_def)

lemma occurs_at_bound: "occurs_at v s k \<Longrightarrow> k + length v \<le> length s"
  by (simp add: occurs_at_def)

lemma occurs_at_iff_append: "occurs_at v s k \<longleftrightarrow> (\<exists>ps ss. s = ps @ v @ ss \<and> length ps = k)"
proof
  assume *: "occurs_at v s k"
  have "s = take k s @ take (length v) (drop k s) @ drop (length v) (drop k s)"
    by (metis append_take_drop_id)
  with * have "s = take k s @ v @ drop (length v) (drop k s) \<and> length (take k s) = k"
    by (simp add: occurs_at_def)
  then show "\<exists>ps ss. s = ps @ v @ ss \<and> length ps = k"
    by blast
next
  assume "\<exists>ps ss. s = ps @ v @ ss \<and> length ps = k"
  then show "occurs_at v s k"
    by (auto simp: occurs_at_def)
qed

lemma sublist_iff_occurs_at: "sublist v s \<longleftrightarrow> (\<exists>k. occurs_at v s k)"
  by (auto simp: sublist_def occurs_at_iff_append)

lemma occurs_at_drop:
  "p \<le> length s \<Longrightarrow> occurs_at v (drop p s) k \<longleftrightarrow> occurs_at v s (k + p)"
  by (auto simp: occurs_at_def)

lemma sublist_drop_iff_occurs_at:
  assumes "p \<le> length s"
  shows "sublist v (drop p s) \<longleftrightarrow> (\<exists>k\<ge>p. occurs_at v s k)"
proof
  assume "sublist v (drop p s)"
  then obtain k where "occurs_at v (drop p s) k"
    by (auto simp: sublist_iff_occurs_at)
  with assms have "p \<le> k + p \<and> occurs_at v s (k + p)"
    by (simp add: occurs_at_drop)
  then show "\<exists>k\<ge>p. occurs_at v s k"
    by blast
next
  assume "\<exists>k\<ge>p. occurs_at v s k"
  then obtain k where "p \<le> k" and "occurs_at v s k"
    by blast
  with assms have "occurs_at v (drop p s) (k - p)"
    by (simp add: occurs_at_drop)
  then show "sublist v (drop p s)"
    by (auto simp: sublist_iff_occurs_at)
qed

section \<open>Occurrences that cannot overlap\<close>

lemma overlaps_iff:
  "overlaps a b \<longleftrightarrow> (\<exists>t. suffix t a \<and> t \<noteq> [] \<and> (prefix t b \<or> prefix b t))"
  by (induction a) (auto simp: suffix_Cons)

lemma occurs_at_prefix_drop: "occurs_at v s k \<Longrightarrow> prefix v (drop k s)"
  by (metis occurs_at_def take_is_prefix)

lemma occurrences_overlap:
  assumes a: "occurs_at a s p" and b: "occurs_at b s q"
    and le: "p \<le> q" and less: "q < p + length a"
  shows "overlaps a b"
proof -
  let ?t = "drop (q - p) a"
  from less le have nonempty: "?t \<noteq> []"
    by simp
  have suffix: "suffix ?t a"
    by (rule suffix_drop)
  from a have "a = take (length a) (drop p s)"
    by (simp add: occurs_at_def)
  then have "?t = drop (q - p) (take (length a) (drop p s))"
    by simp
  also have "\<dots> = take (length a - (q - p)) (drop q s)"
    using le by (simp add: drop_take)
  finally have "prefix ?t (drop q s)"
    by (metis take_is_prefix)
  moreover from b have "prefix b (drop q s)"
    by (rule occurs_at_prefix_drop)
  ultimately have "prefix ?t b \<or> prefix b ?t"
    by (rule prefix_same_cases)
  with suffix nonempty show ?thesis
    unfolding overlaps_iff by blast
qed

lemma occurrences_apart:
  assumes "occurs_at a s p" and "occurs_at b s q"
    and "\<not> overlaps a b" and "\<not> overlaps b a"
  shows "p + length a \<le> q \<or> q + length b \<le> p"
proof (cases "p \<le> q")
  case True
  with assms(1,2,3) show ?thesis
    by (meson occurrences_overlap not_le)
next
  case False
  then have "q \<le> p" by simp
  with assms(1,2,4) show ?thesis
    by (meson occurrences_overlap not_le)
qed

lemma interval_subset: "occurs_at v s k \<Longrightarrow> interval k v \<subseteq> {0..<length s}"
  by (auto simp: interval_def occurs_at_def)

lemma occurrences_disjoint:
  assumes "occurs_at a s p" and "occurs_at b s q"
    and "\<not> overlaps a b" and "\<not> overlaps b a"
  shows "interval p a \<inter> interval q b = {}"
  using occurrences_apart [OF assms] by (auto simp: interval_def)

lemma overlap_freeD:
  "overlap_free names \<Longrightarrow> a \<in> set names \<Longrightarrow> b \<in> set names \<Longrightarrow> a \<noteq> b \<Longrightarrow>
     \<not> overlaps a b"
  by (auto simp: overlap_free_def list_all_iff)

lemma sum_lengths_le:
  assumes free: "overlap_free names" and all: "list_all (\<lambda>n. sublist n s) names"
  shows "sum_list (map length names) \<le> length s"
proof -
  from all have "\<forall>n\<in>set names. \<exists>p. occurs_at n s p"
    by (simp add: list_all_iff sublist_iff_occurs_at)
  then obtain pos where pos: "\<And>n. n \<in> set names \<Longrightarrow> occurs_at n s (pos n)"
    by metis
  let ?A = "\<lambda>n. interval (pos n) n"
  have disj: "\<forall>a\<in>set names. \<forall>b\<in>set names. a \<noteq> b \<longrightarrow> ?A a \<inter> ?A b = {}"
  proof (intro ballI impI)
    fix a b
    assume ab: "a \<in> set names" "b \<in> set names" "a \<noteq> b"
    with free have "\<not> overlaps a b" "\<not> overlaps b a"
      by (auto dest: overlap_freeD)
    with ab pos show "?A a \<inter> ?A b = {}"
      by (intro occurrences_disjoint) auto
  qed
  have sub: "(\<Union>n\<in>set names. ?A n) \<subseteq> {0..<length s}"
    using pos by (blast dest: interval_subset)
  have "sum_list (map length names) = (\<Sum>n\<in>set names. length n)"
    using free by (simp add: overlap_free_def sum_list_distinct_conv_sum_set)
  also have "\<dots> = (\<Sum>n\<in>set names. card (?A n))"
    by (simp add: interval_def)
  also have "\<dots> = card (\<Union>n\<in>set names. ?A n)"
    using disj by (subst card_UN_disjoint) (auto simp: interval_def)
  also have "\<dots> \<le> card {0..<length s}"
    by (rule card_mono [OF _ sub]) simp
  finally show ?thesis
    by simp
qed

section \<open>The search\<close>

lemma StringIndexOf_Nil: "StringIndexOf s [] i = (if i \<le> length s then Some i else None)"
  by (simp add: StringIndexOf.simps [of s "[]" i])

lemma StringIndexOf_step:
  "StringIndexOf s v i =
     (if i + length v \<le> length s then
        (if occurs_at v s i then Some i else StringIndexOf s v (Suc i))
      else None)"
  by (subst StringIndexOf.simps) (auto simp: occurs_at_substring substring_def)

lemma StringIndexOf_sound:
  "StringIndexOf s v i = Some k \<Longrightarrow>
     i \<le> k \<and> occurs_at v s k \<and> (\<forall>j. i \<le> j \<and> j < k \<longrightarrow> \<not> occurs_at v s j)"
proof (induction s v i rule: StringIndexOf.induct)
  case (1 s v i)
  from "1.prems" have fits: "i + length v \<le> length s"
    by (subst (asm) StringIndexOf_step) (simp split: if_splits)
  show ?case
  proof (cases "occurs_at v s i")
    case True
    with fits "1.prems" show ?thesis
      by (subst (asm) StringIndexOf_step) auto
  next
    case False
    with fits "1.prems" have "StringIndexOf s v (Suc i) = Some k"
      by (subst (asm) StringIndexOf_step) simp
    with fits False
    have "Suc i \<le> k \<and> occurs_at v s k \<and> (\<forall>j. Suc i \<le> j \<and> j < k \<longrightarrow> \<not> occurs_at v s j)"
      by (intro "1.IH") (auto simp: occurs_at_substring substring_def)
    with False show ?thesis
      by (auto simp: Suc_le_eq dest: le_neq_implies_less)
  qed
qed

lemma StringIndexOf_complete:
  "occurs_at v s k \<Longrightarrow> i \<le> k \<Longrightarrow> (\<forall>j. i \<le> j \<and> j < k \<longrightarrow> \<not> occurs_at v s j) \<Longrightarrow>
     StringIndexOf s v i = Some k"
proof (induction s v i rule: StringIndexOf.induct)
  case (1 s v i)
  from "1.prems"(1,2) have fits: "i + length v \<le> length s"
    by (auto dest: occurs_at_bound)
  show ?case
  proof (cases "occurs_at v s i")
    case True
    with "1.prems" have "k = i"
      by (cases "i < k") auto
    with True fits show ?thesis
      by (subst StringIndexOf_step) simp
  next
    case False
    with "1.prems" have "Suc i \<le> k"
      by (cases "i = k") auto
    with fits False "1.prems" have "StringIndexOf s v (Suc i) = Some k"
      by (intro "1.IH") (auto simp: occurs_at_substring substring_def)
    with fits False show ?thesis
      by (subst StringIndexOf_step) simp
  qed
qed

lemma StringIndexOf_None_iff:
  "StringIndexOf s v i = None \<longleftrightarrow> (\<forall>k\<ge>i. \<not> occurs_at v s k)"
proof
  assume none: "StringIndexOf s v i = None"
  show "\<forall>k\<ge>i. \<not> occurs_at v s k"
  proof (intro allI impI notI)
    fix k
    assume "i \<le> k" and "occurs_at v s k"
    then have "\<exists>k. i \<le> k \<and> occurs_at v s k"
      by blast
    then obtain m where "i \<le> m \<and> occurs_at v s m" and "\<forall>j<m. \<not> (i \<le> j \<and> occurs_at v s j)"
      by (auto simp: exists_least_iff [of "\<lambda>k. i \<le> k \<and> occurs_at v s k"])
    then have "StringIndexOf s v i = Some m"
      by (intro StringIndexOf_complete) auto
    with none show False
      by simp
  qed
next
  assume "\<forall>k\<ge>i. \<not> occurs_at v s k"
  then show "StringIndexOf s v i = None"
    by (cases "StringIndexOf s v i") (auto dest: StringIndexOf_sound)
qed

section \<open>\<open>includes\<close> is \<open>sublist\<close>\<close>

lemma includes_from_iff_sublist: "includes_from s v p \<longleftrightarrow> sublist v (drop p s)"
proof (cases "p \<le> length s")
  case True
  then show ?thesis
    by (simp add: includes_from_def StringIndexOf_None_iff sublist_drop_iff_occurs_at min_def)
next
  case False
  then have "(\<exists>k\<ge>length s. occurs_at v s k) \<longleftrightarrow> v = []"
    by (auto simp: occurs_at_def intro: exI [of _ "length s"])
  with False show ?thesis
    by (simp add: includes_from_def StringIndexOf_None_iff min_def)
qed

lemma includes_iff_sublist: "includes_str s v \<longleftrightarrow> sublist v s"
  by (simp add: includes_str_def includes_from_iff_sublist)

lemma includes_iff_occurs: "includes_str s v \<longleftrightarrow> (\<exists>k. occurs_at v s k)"
  by (simp add: includes_iff_sublist sublist_iff_occurs_at)

lemma includes_js_literal [simp]: "includes_str (js s) (js v) \<longleftrightarrow> includes_str s v"
  by (simp add: includes_iff_sublist)

lemma includes_Nil [simp]: "includes_str s []"
  by (simp add: includes_iff_sublist)

lemma includes_in_Nil [simp]: "includes_str [] v \<longleftrightarrow> v = []"
  by (simp add: includes_iff_sublist)

lemma includes_refl [simp]: "includes_str s s"
  by (simp add: includes_iff_sublist)

lemma includes_appendI [simp]: "includes_str (ps @ v @ ss) v"
  by (simp add: includes_iff_sublist)

lemma includes_trans: "includes_str s t \<Longrightarrow> includes_str t v \<Longrightarrow> includes_str s v"
  by (auto simp: includes_iff_sublist intro: sublist_trans)

lemma includes_embed: "includes_str s v \<Longrightarrow> includes_str (ps @ s @ ss) v"
  by (rule includes_trans [OF includes_appendI])

lemma includes_length_le: "includes_str s v \<Longrightarrow> length v \<le> length s"
  by (simp add: includes_iff_sublist sublist_length_le)

lemma includes_set_subset: "includes_str s v \<Longrightarrow> set v \<subseteq> set s"
  by (simp add: includes_iff_sublist set_mono_sublist)

lemma includes_Cons:
  "includes_str (c # s) v \<longleftrightarrow> prefix v (c # s) \<or> includes_str s v"
  by (simp add: includes_iff_sublist sublist_Cons_right)

lemmas includes_eval = includes_iff_sublist sublist_code prefix_code

lemma includes_from_examples:
  "includes_from (js ''Title and Title'') (js ''Title'') 0"
  "includes_from (js ''Title and Title'') (js ''Title'') 10"
  "\<not> includes_from (js ''Title and Title'') (js ''Title'') 11"
  "includes_from (js ''Title'') [] 99"
  "\<not> includes_from (js ''Title'') (js ''e'') 99"
  by (simp_all add: includes_from_iff_sublist sublist_Cons_right js_def)

section \<open>Properties of the search\<close>

text \<open>
  C3 (equivalence).  The call \<open>content.includes(section)\<close>, computed by the search
  over start indices, is plain containment: it holds exactly when the receiver
  is some text, then the search string, then some text.  No position, case
  folding or normalisation enters.
\<close>

theorem includes_str_correct:
  "includes_str s v \<longleftrightarrow> (\<exists>before after. s = before @ v @ after)"
  by (simp add: includes_str_def includes_from_iff_sublist sublist_def)

theorem includes_str_correct_witness:
  "includes_str (js ''Title!'') (js ''Title'') \<and>
   (\<exists>before after. js ''Title!'' = before @ js ''Title'' @ after) \<and>
   \<not> includes_str (js ''Titl'') (js ''Title'')"
proof -
  have found: "includes_str (js ''Title!'') (js ''Title'')"
    by (simp add: includes_str_def includes_from_def StringIndexOf.simps substring_def)
  have absent: "\<not> includes_str (js ''Titl'') (js ''Title'')"
    by (simp add: includes_str_def includes_from_def StringIndexOf.simps substring_def)
  from found absent includes_str_correct [of "js ''Title!''" "js ''Title''"] show ?thesis
    by simp
qed

text \<open>
  C4 (functional).  \<open>StringIndexOf\<close> returns an index \<open>k\<close> exactly when \<open>k\<close> is the
  least index at or after the start index at which the search value occurs in
  the string.
\<close>

theorem StringIndexOf_least_occurrence:
  "StringIndexOf s v i = Some k \<longleftrightarrow>
     i \<le> k \<and> occurs_at v s k \<and> (\<forall>j. i \<le> j \<and> j < k \<longrightarrow> \<not> occurs_at v s j)"
  by (blast intro: StringIndexOf_complete dest: StringIndexOf_sound)

theorem StringIndexOf_least_occurrence_witness:
  "StringIndexOf (js ''aXbX'') (js ''X'') 2 = Some 3 \<and>
   occurs_at (js ''X'') (js ''aXbX'') 3 \<and> \<not> occurs_at (js ''X'') (js ''aXbX'') 2"
proof -
  have found: "StringIndexOf (js ''aXbX'') (js ''X'') 2 = Some 3"
    by (simp add: StringIndexOf.simps substring_def)
  with StringIndexOf_least_occurrence [of "js ''aXbX''" "js ''X''" 2 3] show ?thesis
    by simp
qed



text \<open>
  C17 (error).  \<open>StringIndexOf\<close> finds nothing exactly when the start index lies
  beyond the end of the string or the search value does not occur in the rest
  of the string from the start index on.
\<close>

theorem StringIndexOf_not_found:
  "StringIndexOf s v i = None \<longleftrightarrow> length s < i \<or> \<not> sublist v (drop i s)"
proof (cases "i \<le> length s")
  case True
  then show ?thesis
    by (simp add: StringIndexOf_None_iff sublist_drop_iff_occurs_at)
next
  case False
  then have "\<forall>k\<ge>i. \<not> occurs_at v s k"
    by (auto simp: occurs_at_def)
  with False show ?thesis
    by (simp add: StringIndexOf_None_iff)
qed

text \<open>
  C18 (functional).  With a position, \<open>includes\<close> looks only at occurrences that
  start at or after it; a position beyond the end of the receiver is clamped to
  its length, where only the empty string is found.
\<close>

theorem includes_from_position:
  "includes_from s v p \<longleftrightarrow> (\<exists>k\<ge>p. occurs_at v s k) \<or> (v = [] \<and> length s < p)"
proof (cases "p \<le> length s")
  case True
  then show ?thesis
    by (simp add: includes_from_iff_sublist sublist_drop_iff_occurs_at)
next
  case False
  then have "\<not> (\<exists>k\<ge>p. occurs_at v s k)"
    by (auto simp: occurs_at_def)
  with False show ?thesis
    by (auto simp: includes_from_iff_sublist)
qed

text \<open>
  C29 (bounds).  Strings that cannot overlap need room of their own: a text
  that includes every string of a list of distinct strings, no two of which
  can overlap, is at least as long as all of them together.
\<close>

theorem includes_all_length:
  "overlap_free names \<Longrightarrow> \<forall>n\<in>set names. includes_str s n \<Longrightarrow>
     sum_list (map length names) \<le> length s"
  using sum_lengths_le [of names s] by (simp add: list_all_iff includes_iff_sublist)

theorem includes_all_length_witness:
  "overlap_free [js ''ab'', js ''cd''] \<and>
   includes_str (js ''cdxab'') (js ''ab'') \<and> includes_str (js ''cdxab'') (js ''cd'') \<and>
   sum_list (map length [js ''ab'', js ''cd'']) \<le> length (js ''cdxab'')"
proof -
  have free: "overlap_free [js ''ab'', js ''cd'']"
    by (simp add: overlap_free_def)
  have ab: "includes_str (js ''cdxab'') (js ''ab'')"
    and cd: "includes_str (js ''cdxab'') (js ''cd'')"
    by (simp_all add: includes_iff_sublist sublist_Cons_right)
  then have "\<forall>n\<in>set [js ''ab'', js ''cd'']. includes_str (js ''cdxab'') n"
    by simp
  from includes_all_length [OF free this] free ab cd show ?thesis
    by blast
qed

end
