(* ===== verification/Node_Env.thy ===== *)
theory Node_Env
  imports Validate_Prelude
begin

text \<open>
  What the script sees of its host: exceptions, the file system, standard
  output and the exit status.

  \<^item> A statement either completes or throws: \<open>'a completion\<close> is \<open>js_exn + 'a\<close>,
    with \<open>Inl\<close> the thrown value.  \<open>Error m\<close> is the object
    \<^verbatim>\<open>new Error(m)\<close>; \<open>FileAccessError c\<close> is the system error a failed read
    throws, with its cause.
  \<^item> \<open>world\<close> is the state the script can observe or change: what a read of each
    path gives (the decoded text, or the cause of the failure) and the text
    written to standard output so far.
  \<^item> \<open>readFileSync\<close> is the call with the \<^verbatim>\<open>"utf8"\<close> encoding, as the script
    makes it: it returns the text of the file as a string or throws, and
    changes nothing.  \<open>console_log\<close> writes its argument and a line feed to
    standard output and changes nothing else.
  \<^item> \<open>exit_code\<close> is the status of the process once the script has run: 0 when
    it completed, 1 when an exception reached the top level.

  The lemmas are the frame properties of the two calls and the case analysis
  of their results.
\<close>

section \<open>Definitions\<close>

datatype fs_cause = ENOENT | EACCES | EISDIR

datatype js_exn = Error js_string | FileAccessError fs_cause

type_synonym 'a completion = "js_exn + 'a"

type_synonym filesystem = "js_string \<Rightarrow> fs_cause + js_string"

record world =
  files :: filesystem
  stdout :: js_string

definition line_feed :: code_unit where
  "line_feed = 0x0A"

definition readFileSync :: "js_string \<Rightarrow> world \<Rightarrow> js_string completion" where
  "readFileSync path w =
     (case files w path of
        Inl cause \<Rightarrow> Inl (FileAccessError cause)
      | Inr text \<Rightarrow> Inr text)"

definition console_log :: "js_string \<Rightarrow> world \<Rightarrow> world" where
  "console_log data w = w\<lparr>stdout := stdout w @ data @ [line_feed]\<rparr>"

definition exit_code :: "'a completion \<Rightarrow> nat" where
  "exit_code r = (case r of Inl _ \<Rightarrow> 1 | Inr _ \<Rightarrow> 0)"

definition is_missing_section :: "js_exn \<Rightarrow> bool" where
  "is_missing_section e = (case e of Error _ \<Rightarrow> True | FileAccessError _ \<Rightarrow> False)"

lemmas [js_defs] = readFileSync_def console_log_def exit_code_def line_feed_def

section \<open>Reading a file\<close>

lemma readFileSync_Inr_iff: "readFileSync p w = Inr text \<longleftrightarrow> files w p = Inr text"
  by (simp add: readFileSync_def split: sum.splits)

lemma readFileSync_Inl_iff:
  "readFileSync p w = Inl e \<longleftrightarrow> (\<exists>cause. files w p = Inl cause \<and> e = FileAccessError cause)"
  by (auto simp: readFileSync_def split: sum.splits)

lemma readFileSync_not_Error [simp]: "readFileSync p w \<noteq> Inl (Error m)"
  by (simp add: readFileSync_def split: sum.splits)

lemma readFileSync_stdout_irrelevant [simp]:
  "readFileSync p (w\<lparr>stdout := out\<rparr>) = readFileSync p w"
  by (simp add: readFileSync_def)

section \<open>Writing a line\<close>

lemma files_console_log [simp]: "files (console_log d w) = files w"
  by (simp add: console_log_def)

lemma stdout_console_log [simp]: "stdout (console_log d w) = stdout w @ d @ [line_feed]"
  by (simp add: console_log_def)

lemma readFileSync_console_log [simp]: "readFileSync p (console_log d w) = readFileSync p w"
  by (simp add: readFileSync_def)

lemma console_log_neq [simp]: "console_log d w \<noteq> w"
proof
  assume "console_log d w = w"
  then have "stdout (console_log d w) = stdout w"
    by simp
  then show False
    by simp
qed

lemma console_log_inject [simp]: "console_log d w = console_log d' w \<longleftrightarrow> d = d'"
proof
  assume "console_log d w = console_log d' w"
  then have "stdout (console_log d w) = stdout (console_log d' w)"
    by simp
  then show "d = d'"
    by simp
qed simp

section \<open>The exit status\<close>

lemma exit_code_Inr [simp]: "exit_code (Inr x) = 0"
  by (simp add: exit_code_def)

lemma exit_code_Inl [simp]: "exit_code (Inl e) = 1"
  by (simp add: exit_code_def)

lemma exit_code_eq_0_iff: "exit_code r = 0 \<longleftrightarrow> (\<exists>x. r = Inr x)"
  by (cases r) simp_all

lemma exit_code_le_1: "exit_code r \<le> 1"
  by (cases r) simp_all

lemma is_missing_section_simps [simp]:
  "is_missing_section (Error m)"
  "\<not> is_missing_section (FileAccessError c)"
  by (simp_all add: is_missing_section_def)

end
