(* ===== verification/Validator.thy ===== *)
theory Validator
  imports JS_String Node_Env
begin

text \<open>
  The script \<^verbatim>\<open>src/validate.js\<close> itself.

  \<^item> \<open>path\<close>, \<open>requiredSections\<close> and \<open>success_message\<close> are its literals (lines 5,
    7 to 14 and 22); \<open>missing_message\<close> is the template literal of line 18.
  \<^item> \<open>check_sections\<close> is the \<^verbatim>\<open>for ... of\<close> loop of lines 16 to 20, by recursion
    on the rest of the array: the first section that \<open>content\<close> does not include
    throws \<open>Error (missing_message section)\<close> and ends the loop.
    \<open>check_section\<close> is its body alone (lines 17 to 19), the test of one
    section; the loop and the state machine of \<open>Loop_Machine\<close> both go through
    it (\<open>check_sections_body\<close>, \<open>next_state_body\<close>).
  \<^item> \<open>script\<close> is the whole file: read, loop, print.  It takes the \<open>world\<close> and
    returns how the script completed and the world it leaves.  An exception
    leaves the world as it was, because nothing is written before the last line.
  \<^item> \<open>world_with body\<close> and \<open>empty_disk\<close> are two worlds for the examples: the
    file holds \<open>body\<close>, and there is no file.
  \<^item> \<open>outcome\<close>, \<open>spec_validate\<close> and \<open>outcome_of\<close> are the specification: the
    result is \<open>Success\<close>, or \<open>Failure\<close> with the first required name that is not
    a \<open>sublist\<close> of the text; \<open>outcome_of\<close> reads that result off a completion
    of the loop.

  The lemmas give the behaviour of the loop on every branch, show that it
  implements \<open>spec_validate\<close>, and describe each way the script can end.
\<close>

section \<open>Definitions\<close>

definition path :: js_string where
  "path = js ''CLARIFICATION_REQUEST.md''"

definition requiredSections :: "js_string list" where
  "requiredSections =
     [js ''Title'',
      js ''Background'',
      js ''Observed Ambiguity'',
      js ''Specific Clarification Questions'',
      js ''Risk of Proceeding Without Clarification'',
      js ''Suggested Documentation Improvements'']"

definition missing_message :: "js_string \<Rightarrow> js_string" where
  "missing_message section = js ''Missing section: '' @ section"

definition success_message :: js_string where
  "success_message = js ''Structure validation passed''"

definition check_section :: "js_string \<Rightarrow> js_string \<Rightarrow> unit completion" where
  "check_section content section =
     (if \<not> includes_str content section then Inl (Error (missing_message section))
      else Inr ())"

fun check_sections :: "js_string \<Rightarrow> js_string list \<Rightarrow> unit completion" where
  "check_sections content [] = Inr ()"
| "check_sections content (section # rest) =
     (if \<not> includes_str content section then Inl (Error (missing_message section))
      else check_sections content rest)"

definition script :: "world \<Rightarrow> unit completion \<times> world" where
  "script w =
     (case readFileSync path w of
        Inl e \<Rightarrow> (Inl e, w)
      | Inr content \<Rightarrow>
          (case check_sections content requiredSections of
             Inl e \<Rightarrow> (Inl e, w)
           | Inr _ \<Rightarrow> (Inr (), console_log success_message w)))"

datatype outcome = Success | Failure js_string

definition spec_validate :: "js_string \<Rightarrow> outcome" where
  "spec_validate text =
     (case first_failing (\<lambda>name. sublist name text) requiredSections of
        None \<Rightarrow> Success
      | Some name \<Rightarrow> Failure name)"

fun outcome_of :: "unit completion \<Rightarrow> outcome option" where
  "outcome_of (Inr _) = Some Success"
| "outcome_of (Inl (Error m)) =
     (if take 17 m = js ''Missing section: '' then Some (Failure (drop 17 m)) else None)"
| "outcome_of (Inl (FileAccessError _)) = None"

definition world_with :: "js_string \<Rightarrow> world" where
  "world_with body =
     \<lparr>files = (\<lambda>p. if p = path then Inr body else Inl ENOENT), stdout = []\<rparr>"

definition empty_disk :: world where
  "empty_disk = \<lparr>files = (\<lambda>p. Inl ENOENT), stdout = []\<rparr>"

lemmas [js_defs] = path_def requiredSections_def missing_message_def success_message_def

section \<open>The message of a missing section\<close>

lemma take_missing_message [simp]: "take 17 (missing_message s) = js ''Missing section: ''"
  by (simp add: missing_message_def)

lemma drop_missing_message [simp]: "drop 17 (missing_message s) = s"
  by (simp add: missing_message_def)

lemma missing_message_inject [simp]: "missing_message s = missing_message t \<longleftrightarrow> s = t"
  by (simp add: missing_message_def)

lemma length_missing_message [simp]: "length (missing_message s) = 17 + length s"
  by (simp add: missing_message_def)

lemma outcome_of_missing [simp]: "outcome_of (Inl (Error (missing_message s))) = Some (Failure s)"
  by simp

section \<open>The loop\<close>

lemma check_section_Inr_iff [simp]: "check_section content s = Inr u \<longleftrightarrow> includes_str content s"
  by (simp add: check_section_def)

lemma check_section_Inl_iff:
  "check_section content s = Inl e \<longleftrightarrow> \<not> includes_str content s \<and> e = Error (missing_message s)"
  by (auto simp: check_section_def)

lemma check_sections_body:
  "check_sections content (s # rest) =
     (case check_section content s of
        Inl e \<Rightarrow> Inl e
      | Inr _ \<Rightarrow> check_sections content rest)"
  by (simp add: check_section_def)

lemma check_sections_first_failing:
  "check_sections content secs =
     (case first_failing (includes_str content) secs of
        None \<Rightarrow> Inr ()
      | Some s \<Rightarrow> Inl (Error (missing_message s)))"
  by (induction secs) simp_all

lemma check_sections_Inr_iff:
  "check_sections content secs = Inr u \<longleftrightarrow> list_all (\<lambda>s. sublist s content) secs"
  by (simp add: check_sections_first_failing first_failing_None_iff [symmetric]
      includes_iff_sublist [abs_def] split: option.splits)

lemma list_all_sublist_iff:
  "list_all (\<lambda>s. sublist s content) secs \<longleftrightarrow> check_sections content secs = Inr ()"
  by (simp add: check_sections_Inr_iff)

lemma check_sections_Inl_iff:
  "check_sections content secs = Inl e \<longleftrightarrow>
     (\<exists>s. first_failing (\<lambda>s. sublist s content) secs = Some s \<and> e = Error (missing_message s))"
  by (auto simp: check_sections_first_failing includes_iff_sublist [abs_def]
      split: option.splits)

lemma check_sections_append:
  "check_sections content (xs @ ys) =
     (case check_sections content xs of
        Inl e \<Rightarrow> Inl e
      | Inr _ \<Rightarrow> check_sections content ys)"
  by (induction xs) simp_all

lemma check_sections_not_file_error [simp]:
  "check_sections content secs \<noteq> Inl (FileAccessError c)"
  by (induction secs) simp_all

lemma check_sections_throws_missing:
  "check_sections content secs = Inl e \<Longrightarrow> is_missing_section e"
  by (auto simp: check_sections_Inl_iff)

lemma outcome_of_check_sections:
  "outcome_of (check_sections content secs) =
     Some (case first_failing (\<lambda>s. sublist s content) secs of
             None \<Rightarrow> Success
           | Some s \<Rightarrow> Failure s)"
  by (simp add: check_sections_first_failing includes_iff_sublist [abs_def]
      split: option.splits)

section \<open>The required sections\<close>

lemma length_requiredSections [simp]: "length requiredSections = 6"
  by (simp add: requiredSections_def)

lemma distinct_requiredSections: "distinct requiredSections"
  by (simp add: requiredSections_def)

lemma overlap_free_requiredSections: "overlap_free requiredSections"
  by (simp add: overlap_free_def requiredSections_def)

lemma requiredSections_total_length: "sum_list (map length requiredSections) = 141"
  by (simp add: requiredSections_def)

lemma length_concat_requiredSections: "length (concat requiredSections) = 141"
  by (simp add: length_concat requiredSections_total_length)

lemma concat_requiredSections_passes:
  "check_sections (concat requiredSections) requiredSections = Inr ()"
  by (auto simp: check_sections_Inr_iff list_all_iff intro: sublist_in_concat)

lemma requiredSections_nonempty_names: "[] \<notin> set requiredSections"
  by (simp add: requiredSections_def)

section \<open>The script\<close>

lemma script_file_error:
  "files w path = Inl cause \<Longrightarrow> script w = (Inl (FileAccessError cause), w)"
  by (simp add: script_def readFileSync_def)

lemma script_read:
  "files w path = Inr text \<Longrightarrow>
     script w =
       (case check_sections text requiredSections of
          Inl e \<Rightarrow> (Inl e, w)
        | Inr _ \<Rightarrow> (Inr (), console_log success_message w))"
  by (simp add: script_def readFileSync_def)

lemma script_cases:
  obtains (no_file) cause where "files w path = Inl cause"
      and "script w = (Inl (FileAccessError cause), w)"
    | (missing) body name where "files w path = Inr body"
      and "first_failing (\<lambda>s. sublist s body) requiredSections = Some name"
      and "script w = (Inl (Error (missing_message name)), w)"
    | (passed) body where "files w path = Inr body"
      and "list_all (\<lambda>s. sublist s body) requiredSections"
      and "script w = (Inr (), console_log success_message w)"
proof (cases "files w path")
  case (Inl cause)
  then show ?thesis
    by (auto intro: no_file simp: script_file_error)
next
  case (Inr body)
  show ?thesis
  proof (cases "check_sections body requiredSections")
    case (Inl e)
    then obtain name where "first_failing (\<lambda>s. sublist s body) requiredSections = Some name"
      and "e = Error (missing_message name)"
      by (auto simp: check_sections_Inl_iff)
    with Inr Inl show ?thesis
      by (auto intro: missing simp: script_read)
  next
    case (Inr u)
    then have "list_all (\<lambda>s. sublist s body) requiredSections"
      by (simp add: check_sections_Inr_iff)
    with \<open>files w path = Inr body\<close> Inr show ?thesis
      by (auto intro: passed simp: script_read)
  qed
qed

lemma script_passes_iff:
  "fst (script w) = Inr () \<longleftrightarrow>
     (\<exists>body. files w path = Inr body \<and> list_all (\<lambda>s. sublist s body) requiredSections)"
  by (cases w rule: script_cases) (auto simp: first_failing_None_iff [symmetric])

lemma files_script [simp]: "files (snd (script w)) = files w"
  by (cases w rule: script_cases) simp_all

lemma script_world:
  "snd (script w) = (if fst (script w) = Inr () then console_log success_message w else w)"
  by (cases w rule: script_cases) simp_all

lemma fst_script_stdout_irrelevant: "fst (script (w\<lparr>stdout := out\<rparr>)) = fst (script w)"
  by (simp add: script_def console_log_def split: sum.splits)

section \<open>Properties of the loop\<close>

text \<open>
  C1 (functional).  The loop over a list of sections completes without throwing
  exactly when every section of the list occurs in the text as a contiguous run
  of code units, wherever it stands and whatever surrounds it.
\<close>

theorem check_sections_pass_iff:
  "check_sections content secs = Inr () \<longleftrightarrow>
     (\<forall>name \<in> set secs. \<exists>before after. content = before @ name @ after)"
  by (induction secs) (auto simp: includes_iff_sublist sublist_def)

theorem check_sections_pass_iff_witness:
  "check_sections (js ''My Title, my Background'') [js ''Title'', js ''Background''] = Inr () \<and>
   (\<exists>before after. js ''My Title, my Background'' = before @ js ''Background'' @ after)"
  using check_sections_pass_iff
    [of "js ''My Title, my Background''" "[js ''Title'', js ''Background'']"]
  by (simp add: includes_iff_sublist sublist_Cons_right)

text \<open>
  C2 (error).  The loop throws exactly when some section is missing; the error
  it throws is \<open>Error\<close> with the message \<open>Missing section: \<close> followed by the first
  section of the list that the text does not include: every section before it
  is included, and the sections after it are not looked at.
\<close>

theorem check_sections_first_missing:
  "check_sections content secs = Inl e \<longleftrightarrow>
     (\<exists>pre name post. secs = pre @ name # post \<and>
        list_all (\<lambda>s. sublist s content) pre \<and> \<not> sublist name content \<and>
        e = Error (js ''Missing section: '' @ name))"
  by (auto simp: check_sections_Inl_iff first_failing_Some_iff missing_message_def)

theorem check_sections_first_missing_witness:
  "check_sections (js ''Title and Background'') requiredSections =
     Inl (Error (js ''Missing section: Observed Ambiguity'')) \<and>
   (\<exists>pre name post. requiredSections = pre @ name # post \<and>
      list_all (\<lambda>s. sublist s (js ''Title and Background'')) pre \<and>
      \<not> sublist name (js ''Title and Background'') \<and>
      Error (js ''Missing section: Observed Ambiguity'') = Error (js ''Missing section: '' @ name))"
proof -
  have run: "check_sections (js ''Title and Background'') requiredSections =
     Inl (Error (js ''Missing section: Observed Ambiguity''))"
    by (simp add: requiredSections_def missing_message_def includes_iff_sublist
        sublist_Cons_right)
  with check_sections_first_missing
    [of "js ''Title and Background''" requiredSections
      "Error (js ''Missing section: Observed Ambiguity'')"]
  show ?thesis
    by simp
qed

text \<open>
  C8 (refinement).  The loop over the six required sections implements the
  specification: the outcome its completion stands for is \<open>spec_validate\<close> of
  the text, that is \<open>Success\<close>, or \<open>Failure\<close> with the first required name that
  is not contained in the text.
\<close>

theorem check_sections_refines_spec:
  "outcome_of (check_sections content requiredSections) = Some (spec_validate content)"
  by (simp add: outcome_of_check_sections spec_validate_def)

theorem check_sections_refines_spec_witness:
  "check_sections (js ''Title'') requiredSections =
     Inl (Error (js ''Missing section: Background'')) \<and>
   outcome_of (Inl (Error (js ''Missing section: Background''))) =
     Some (spec_validate (js ''Title'')) \<and>
   spec_validate (js ''Title'') = Failure (js ''Background'')"
proof -
  have run: "check_sections (js ''Title'') requiredSections =
      Inl (Error (js ''Missing section: Background''))"
    by (simp add: requiredSections_def missing_message_def includes_iff_sublist
        sublist_Cons_right)
  have spec: "spec_validate (js ''Title'') = Failure (js ''Background'')"
    by (simp add: spec_validate_def requiredSections_def sublist_Cons_right)
  from check_sections_refines_spec [of "js ''Title''"] run spec show ?thesis
    by simp
qed

text \<open>
  C19 (functional).  Text around a passing document never makes it fail: if the
  loop completes on a text, it completes on every text that contains it.
\<close>

theorem check_sections_monotone:
  "sublist body body' \<Longrightarrow> check_sections body secs = Inr () \<Longrightarrow>
     check_sections body' secs = Inr ()"
  by (auto simp: check_sections_Inr_iff list_all_iff intro: sublist_trans)

theorem check_sections_monotone_witness:
  "sublist (js ''Title'') (js ''# Title #'') \<and> check_sections (js ''Title'') [js ''Title''] = Inr () \<and>
   check_sections (js ''# Title #'') [js ''Title''] = Inr ()"
proof -
  have 1: "sublist (js ''Title'') (js ''# Title #'')"
    by (simp add: sublist_Cons_right)
  have 2: "check_sections (js ''Title'') [js ''Title''] = Inr ()"
    by simp
  from 1 2 check_sections_monotone [OF 1 2] show ?thesis
    by simp
qed

text \<open>
  C20 (functional).  The order in which the sections appear in the document
  does not matter: a text made of pieces, in any order and with any other
  pieces between them, passes as soon as every section is one of the pieces.
\<close>

theorem passing_any_order:
  "set secs \<subseteq> set parts \<Longrightarrow> check_sections (concat parts) secs = Inr ()"
  by (auto simp: check_sections_Inr_iff list_all_iff intro: sublist_in_concat)

theorem passing_any_order_witness:
  "set requiredSections \<subseteq> set (js ''## '' # rev requiredSections) \<and>
   check_sections (concat (js ''## '' # rev requiredSections)) requiredSections = Inr ()"
proof -
  have "set requiredSections \<subseteq> set (js ''## '' # rev requiredSections)"
    by auto
  with passing_any_order [OF this] show ?thesis
    by simp
qed

text \<open>
  C22 (bounds).  The shortest document that passes has 141 code units, the
  sum of the lengths of the six required names: the names written one after
  the other pass, and no shorter text does, because no two of the names can
  share a code unit of the text.
\<close>

theorem least_passing_length:
  "(LEAST n. \<exists>content. length content = n \<and>
      check_sections content requiredSections = Inr ()) = 141"
proof (rule Least_equality)
  show "\<exists>content. length content = 141 \<and> check_sections content requiredSections = Inr ()"
    using concat_requiredSections_passes length_concat_requiredSections by blast
next
  fix n
  assume "\<exists>content. length content = n \<and> check_sections content requiredSections = Inr ()"
  then obtain content where len: "length content = n"
    and "list_all (\<lambda>s. sublist s content) requiredSections"
    by (auto simp only: check_sections_Inr_iff)
  with overlap_free_requiredSections
  have "sum_list (map length requiredSections) \<le> length content"
    by (intro sum_lengths_le)
  with len show "141 \<le> n"
    by (simp only: requiredSections_total_length)
qed

text \<open>
  C23 (functional).  The check is case sensitive: a text that contains
  \<open>Title\<close> but no capital \<open>B\<close> anywhere fails with the message for
  \<open>Background\<close>, whatever lower-case spelling of it the text may hold.
\<close>

theorem case_sensitive:
  "sublist (js ''Title'') content \<Longrightarrow> code_unit_of CHR ''B'' \<notin> set content \<Longrightarrow>
     check_sections content requiredSections = Inl (Error (js ''Missing section: Background''))"
proof -
  assume title: "sublist (js ''Title'') content" and no_B: "code_unit_of CHR ''B'' \<notin> set content"
  have "\<not> sublist (js ''Background'') content"
  proof
    assume "sublist (js ''Background'') content"
    then have "set (js ''Background'') \<subseteq> set content"
      by (rule set_mono_sublist)
    with no_B show False
      by simp
  qed
  with title show ?thesis
    by (simp add: requiredSections_def includes_iff_sublist missing_message_def)
qed

theorem case_sensitive_witness:
  "sublist (js ''Title'') (js ''Title, background'') \<and>
   code_unit_of CHR ''B'' \<notin> set (js ''Title, background'') \<and>
   check_sections (js ''Title, background'') requiredSections =
     Inl (Error (js ''Missing section: Background''))"
proof -
  have 1: "sublist (js ''Title'') (js ''Title, background'')"
    by (simp add: sublist_Cons_right)
  have 2: "code_unit_of CHR ''B'' \<notin> set (js ''Title, background'')"
    by simp
  from 1 2 case_sensitive [OF 1 2] show ?thesis
    by simp
qed

text \<open>
  C21 (functional).  Each of the six checks is needed: the document made of the
  five other required names, one after the other, fails, and the section it is
  reported to miss is the one left out.  So no required name is contained in
  the others, and no check of the loop is implied by the rest.
\<close>

theorem required_sections_independent:
  "name \<in> set requiredSections \<Longrightarrow>
     check_sections (concat (removeAll name requiredSections)) requiredSections =
       Inl (Error (missing_message name))"
proof -
  have "list_all
      (\<lambda>name. check_sections (concat (removeAll name requiredSections)) requiredSections =
         Inl (Error (missing_message name)))
      requiredSections"
    by (simp add: requiredSections_def includes_iff_sublist sublist_Cons_right)
  then show "name \<in> set requiredSections \<Longrightarrow>
     check_sections (concat (removeAll name requiredSections)) requiredSections =
       Inl (Error (missing_message name))"
    by (simp add: list_all_iff)
qed

theorem required_sections_independent_witness:
  "js ''Background'' \<in> set requiredSections \<and>
   check_sections (concat (removeAll (js ''Background'') requiredSections)) requiredSections =
     Inl (Error (missing_message (js ''Background'')))"
proof -
  have 1: "js ''Background'' \<in> set requiredSections"
    by (simp add: requiredSections_def)
  from 1 required_sections_independent [OF 1] show ?thesis
    by simp
qed

section \<open>Properties of the script\<close>

text \<open>
  C5 (functional).  The script completes normally exactly when the file can be
  read and its text contains all six required sections; it then leaves the
  world with the line \<open>Structure validation passed\<close> added to standard output
  and nothing else changed.
\<close>

theorem script_success_iff:
  "script w = (Inr (), w') \<longleftrightarrow>
     (\<exists>body. files w path = Inr body \<and> list_all (\<lambda>name. sublist name body) requiredSections \<and>
        w' = console_log success_message w)"
  by (auto simp: script_def readFileSync_def list_all_sublist_iff split: sum.splits)

theorem script_success_iff_witness:
  "script (world_with (concat requiredSections)) =
     (Inr (), console_log success_message (world_with (concat requiredSections))) \<and>
   stdout (console_log success_message (world_with (concat requiredSections))) =
     js ''Structure validation passed'' @ [0x0A]"
proof -
  have "files (world_with (concat requiredSections)) path = Inr (concat requiredSections)"
    by (simp add: world_with_def)
  moreover have "list_all (\<lambda>name. sublist name (concat requiredSections)) requiredSections"
    by (auto simp: list_all_iff intro: sublist_in_concat)
  ultimately have "script (world_with (concat requiredSections)) =
     (Inr (), console_log success_message (world_with (concat requiredSections)))"
    unfolding script_success_iff by blast
  then show ?thesis
    by (simp add: world_with_def success_message_def line_feed_def)
qed

text \<open>
  C6 (error).  The script throws the file access error exactly when the file
  cannot be read, and then with the cause the file system gave, before any
  section is looked at: nothing is printed and the world is unchanged.
\<close>

theorem script_missing_file:
  "(fst (script w) = Inl (FileAccessError cause) \<longleftrightarrow> files w path = Inl cause) \<and>
   (files w path = Inl cause \<longrightarrow> script w = (Inl (FileAccessError cause), w))"
  by (auto simp: script_def readFileSync_def split: sum.splits)

theorem script_missing_file_witness:
  "files empty_disk path = Inl ENOENT \<and>
   script empty_disk = (Inl (FileAccessError ENOENT), empty_disk) \<and>
   stdout (snd (script empty_disk)) = []"
proof -
  have 1: "files empty_disk path = Inl ENOENT"
    by (simp add: empty_disk_def)
  from script_missing_file [of empty_disk ENOENT] 1 show ?thesis
    by (simp add: empty_disk_def)
qed

text \<open>
  C12 (error).  When the file can be read and the specification says
  \<open>Failure name\<close> for its text, the script throws \<open>Error\<close> with the message
  \<open>Missing section: name\<close>, prints nothing and leaves the world unchanged.
\<close>

theorem script_missing_section:
  "files w path = Inr body \<Longrightarrow> spec_validate body = Failure name \<Longrightarrow>
     script w = (Inl (Error (js ''Missing section: '' @ name)), w)"
  by (cases w rule: script_cases)
    (auto simp: spec_validate_def missing_message_def first_failing_None_iff [symmetric]
      split: option.splits)

theorem script_missing_section_witness:
  "files (world_with []) path = Inr [] \<and> spec_validate [] = Failure (js ''Title'') \<and>
   script (world_with []) = (Inl (Error (js ''Missing section: Title'')), world_with [])"
proof -
  have 1: "files (world_with []) path = Inr []"
    by (simp add: world_with_def)
  have 2: "spec_validate [] = Failure (js ''Title'')"
    by (simp add: spec_validate_def requiredSections_def)
  from 1 2 script_missing_section [OF 1 2] show ?thesis
    by simp
qed

text \<open>
  C13 (type).  The script ends in exactly one of three ways: normally, with the
  file access error, or with the error whose message names one of the six
  required sections.  No other exception leaves it.
\<close>

theorem script_outcomes:
  "fst (script w) = Inr () \<or>
   (\<exists>cause. fst (script w) = Inl (FileAccessError cause)) \<or>
   (\<exists>name \<in> set requiredSections. fst (script w) = Inl (Error (missing_message name)))"
  by (cases w rule: script_cases) (auto dest: first_failing_in_set)

text \<open>
  C14 (safety).  The script never changes the file system, and it writes at
  most one line: the world it leaves is the world it started in, with the
  success line added to standard output when, and only when, it completed
  normally.
\<close>

theorem script_frame:
  "files (snd (script w)) = files w \<and>
   stdout (snd (script w)) =
     (if fst (script w) = Inr () then stdout w @ success_message @ [line_feed] else stdout w)"
  by (cases w rule: script_cases) simp_all

text \<open>
  C15 (safety).  Running the script again on the world a run has left ends the
  same way: the script keeps no state, and what it prints does not influence
  what it reads.
\<close>

theorem script_idempotent:
  "fst (script (snd (script w))) = fst (script w)"
  by (simp add: script_world console_log_def fst_script_stdout_irrelevant)

text \<open>
  C28 (safety).  No two of the six required names can overlap in a document:
  where two different names occur, one ends before the other begins.  So one
  stretch of text never serves two checks.
\<close>

theorem names_cannot_overlap:
  assumes "a \<in> set requiredSections" and "b \<in> set requiredSections" and "a \<noteq> b"
    and "occurs_at a content p" and "occurs_at b content q"
  shows "p + length a \<le> q \<or> q + length b \<le> p"
proof -
  from assms(1-3) have "\<not> overlaps a b" "\<not> overlaps b a"
    using overlap_free_requiredSections by (auto dest: overlap_freeD)
  with assms(4,5) show ?thesis
    by (rule occurrences_apart)
qed

theorem names_cannot_overlap_witness:
  "js ''Title'' \<in> set requiredSections \<and> js ''Background'' \<in> set requiredSections \<and>
   js ''Title'' \<noteq> js ''Background'' \<and>
   occurs_at (js ''Title'') (js ''Background, Title'') 12 \<and>
   occurs_at (js ''Background'') (js ''Background, Title'') 0 \<and>
   (12 + length (js ''Title'') \<le> 0 \<or> 0 + length (js ''Background'') \<le> (12::nat))"
proof -
  have a: "js ''Title'' \<in> set requiredSections"
    and b: "js ''Background'' \<in> set requiredSections"
    by (simp_all add: requiredSections_def)
  have ne: "js ''Title'' \<noteq> js ''Background''"
    by simp
  have p: "occurs_at (js ''Title'') (js ''Background, Title'') 12"
    and q: "occurs_at (js ''Background'') (js ''Background, Title'') 0"
    by (simp_all add: occurs_at_def)
  from names_cannot_overlap [OF a b ne p q] a b ne p q show ?thesis
    by blast
qed

text \<open>
  C31 (safety).  The script reads one file and nothing else: two worlds in
  which that file reads the same make it end the same way and print the same,
  whatever else they hold and whatever was printed before.
\<close>

theorem script_reads_only_the_file:
  "files w path = files w' path \<Longrightarrow>
     fst (script w) = fst (script w') \<and>
     (\<exists>out. stdout (snd (script w)) = stdout w @ out \<and>
            stdout (snd (script w')) = stdout w' @ out)"
  by (auto simp: script_def readFileSync_def console_log_def split: sum.splits)

theorem script_reads_only_the_file_witness:
  "files (world_with (js ''Title'')) path =
     files \<lparr>files = (\<lambda>p. Inr (js ''Title'')), stdout = js ''earlier output''\<rparr> path \<and>
   fst (script (world_with (js ''Title''))) =
     fst (script \<lparr>files = (\<lambda>p. Inr (js ''Title'')), stdout = js ''earlier output''\<rparr>)"
proof -
  have same: "files (world_with (js ''Title'')) path =
      files \<lparr>files = (\<lambda>p. Inr (js ''Title'')), stdout = js ''earlier output''\<rparr> path"
    by (simp add: world_with_def)
  from script_reads_only_the_file [OF same] same show ?thesis
    by blast
qed

end
