(* ===== verification/Loop_Machine.thy ===== *)
theory Loop_Machine
  imports Validator
begin

text \<open>
  The loop of \<^verbatim>\<open>src/validate.js\<close> (lines 16 to 20) as a state machine, one
  transition per iteration.

  \<^item> \<open>loop_state\<close>: \<open>Checking i\<close> while the array iterator stands at index \<open>i\<close>,
    \<open>Succeeded\<close> once the iterator is exhausted, \<open>Failed name\<close> once the body has
    thrown for the section \<open>name\<close>.
  \<^item> \<open>step content sections\<close> is the transition relation, an \<^theory_text>\<open>inductive\<close>
    predicate with one rule per way an iteration can go: the section at the
    index is included (\<open>present\<close>), it is not (\<open>absent\<close>), there is no section at
    the index (\<open>finish\<close>).  \<open>next_state\<close> is the same as a function, the
    identity on the two final states, so that a run is an iterate of it.
  \<^item> \<open>reachable\<close> are the states a run from \<open>Checking 0\<close> passes through, and
    \<open>loop_inv\<close> is what holds in each of them: every section before the index
    is included, and a final state says the truth about the text.
  \<^item> \<open>loop_result\<close> is the final state the specification asks for from an
    index on, and \<open>abs_state\<close> reads the \<open>outcome\<close> off a final state.
  \<^item> \<open>rank\<close> is the number of steps a state can still take at most; every
    step from a state of the invariant lowers it.
  \<^item> \<open>passed_prefix\<close> is the number of sections at the head of the list that
    the text includes: the iterations that go on to the next section.

  The lemmas show that the relation is deterministic, that final states have
  no successor and every other state has one, that the invariant holds in all
  reachable states, that a run ends after at most one step more than there are
  sections, and exactly one step after the sections of \<open>passed_prefix\<close>, and
  that the final state it reaches is the completion of \<open>check_sections\<close>.
\<close>

section \<open>Definitions\<close>

datatype loop_state = Checking nat | Succeeded | Failed js_string

inductive step :: "js_string \<Rightarrow> js_string list \<Rightarrow> loop_state \<Rightarrow> loop_state \<Rightarrow> bool"
  for content :: js_string and sections :: "js_string list"
where
  present: "i < length sections \<Longrightarrow> includes_str content (sections ! i) \<Longrightarrow>
    step content sections (Checking i) (Checking (Suc i))"
| absent: "i < length sections \<Longrightarrow> \<not> includes_str content (sections ! i) \<Longrightarrow>
    step content sections (Checking i) (Failed (sections ! i))"
| finish: "length sections \<le> i \<Longrightarrow>
    step content sections (Checking i) Succeeded"

fun next_state :: "js_string \<Rightarrow> js_string list \<Rightarrow> loop_state \<Rightarrow> loop_state" where
  "next_state content sections (Checking i) =
     (if i < length sections then
        (if includes_str content (sections ! i) then Checking (Suc i)
         else Failed (sections ! i))
      else Succeeded)"
| "next_state content sections Succeeded = Succeeded"
| "next_state content sections (Failed name) = Failed name"

fun terminal :: "loop_state \<Rightarrow> bool" where
  "terminal (Checking i) = False"
| "terminal Succeeded = True"
| "terminal (Failed name) = True"

inductive reachable :: "js_string \<Rightarrow> js_string list \<Rightarrow> loop_state \<Rightarrow> bool"
  for content :: js_string and sections :: "js_string list"
where
  start: "reachable content sections (Checking 0)"
| after: "reachable content sections s \<Longrightarrow> step content sections s t \<Longrightarrow>
    reachable content sections t"

fun loop_inv :: "js_string \<Rightarrow> js_string list \<Rightarrow> loop_state \<Rightarrow> bool" where
  "loop_inv content sections (Checking i) \<longleftrightarrow>
     i \<le> length sections \<and> list_all (\<lambda>s. sublist s content) (take i sections)"
| "loop_inv content sections Succeeded \<longleftrightarrow>
     list_all (\<lambda>s. sublist s content) sections"
| "loop_inv content sections (Failed name) \<longleftrightarrow>
     first_failing (\<lambda>s. sublist s content) sections = Some name"

definition loop_result :: "js_string \<Rightarrow> js_string list \<Rightarrow> nat \<Rightarrow> loop_state" where
  "loop_result content sections i =
     (case first_failing (\<lambda>s. sublist s content) (drop i sections) of
        None \<Rightarrow> Succeeded
      | Some name \<Rightarrow> Failed name)"

fun rank :: "js_string list \<Rightarrow> loop_state \<Rightarrow> nat" where
  "rank sections (Checking i) = Suc (length sections) - i"
| "rank sections Succeeded = 0"
| "rank sections (Failed name) = 0"

fun abs_state :: "loop_state \<Rightarrow> outcome option" where
  "abs_state (Checking i) = None"
| "abs_state Succeeded = Some Success"
| "abs_state (Failed name) = Some (Failure name)"

definition passed_prefix :: "js_string \<Rightarrow> js_string list \<Rightarrow> nat" where
  "passed_prefix content sections = length (takeWhile (includes_str content) sections)"

code_pred step .

inductive_cases step_CheckingE [elim]: "step content sections (Checking i) t"
inductive_cases step_SucceededE [elim!]: "step content sections Succeeded t"
inductive_cases step_FailedE [elim!]: "step content sections (Failed name) t"

inductive_simps step_Checking_iff: "step content sections (Checking i) t"

section \<open>Single steps\<close>

lemma step_iff_next_state:
  "step content sections s t \<longleftrightarrow> \<not> terminal s \<and> t = next_state content sections s"
  by (cases s) (auto intro: step.intros)

lemma next_state_body:
  "i < length sections \<Longrightarrow>
     next_state content sections (Checking i) =
       (case check_section content (sections ! i) of
          Inl e \<Rightarrow> Failed (sections ! i)
        | Inr _ \<Rightarrow> Checking (Suc i))"
  by (simp add: check_section_def)

lemma step_unique: "step content sections s t \<Longrightarrow> step content sections s u \<Longrightarrow> t = u"
  by (simp add: step_iff_next_state)

lemma step_progress: "\<not> terminal s \<Longrightarrow> \<exists>t. step content sections s t"
  by (simp add: step_iff_next_state)

lemma terminal_no_step: "terminal s \<Longrightarrow> \<not> step content sections s t"
  by (simp add: step_iff_next_state)

lemma next_state_terminal [simp]: "terminal s \<Longrightarrow> next_state content sections s = s"
  by (cases s) simp_all

lemma funpow_next_state_terminal [simp]:
  "terminal s \<Longrightarrow> (next_state content sections ^^ n) s = s"
  by (induction n) simp_all

section \<open>The invariant\<close>

lemma loop_inv_start: "loop_inv content sections (Checking 0)"
  by simp

lemma first_failing_at:
  assumes "i < length xs" and "list_all P (take i xs)" and "\<not> P (xs ! i)"
  shows "first_failing P xs = Some (xs ! i)"
proof -
  from assms(1) have "xs = take i xs @ xs ! i # drop (Suc i) xs"
    by (simp add: id_take_nth_drop)
  with assms(2,3) show ?thesis
    unfolding first_failing_Some_iff by blast
qed

lemma loop_inv_step:
  assumes "step content sections s t" and "loop_inv content sections s"
  shows "loop_inv content sections t"
  using assms
proof (induction rule: step.induct)
  case (present i)
  then show ?case
    by (simp add: take_Suc_conv_app_nth includes_iff_sublist)
next
  case (absent i)
  then show ?case
    by (simp add: first_failing_at includes_iff_sublist)
next
  case (finish i)
  then show ?case
    by simp
qed


section \<open>Runs\<close>

lemma loop_result_terminal [simp]: "terminal (loop_result content sections i)"
  by (simp add: loop_result_def split: option.splits)

lemma loop_result_beyond: "length sections \<le> i \<Longrightarrow> loop_result content sections i = Succeeded"
  by (simp add: loop_result_def)

lemma loop_result_unfold:
  "i < length sections \<Longrightarrow>
     loop_result content sections i =
       (if includes_str content (sections ! i) then loop_result content sections (Suc i)
        else Failed (sections ! i))"
  by (simp add: loop_result_def Cons_nth_drop_Suc [symmetric] includes_iff_sublist)

lemma abs_state_loop_result:
  "abs_state (loop_result content sections 0) = outcome_of (check_sections content sections)"
  by (simp add: loop_result_def outcome_of_check_sections split: option.splits)

lemma abs_state_eq_Some_iff:
  "abs_state t = Some Success \<longleftrightarrow> t = Succeeded"
  "abs_state t = Some (Failure name) \<longleftrightarrow> t = Failed name"
  by (cases t; simp)+

lemma run_from:
  "i + n = length sections \<Longrightarrow>
     (next_state content sections ^^ Suc n) (Checking i) = loop_result content sections i"
proof (induction n arbitrary: i)
  case 0
  then show ?case
    by (simp add: loop_result_beyond)
next
  case (Suc n)
  then have less: "i < length sections" and rest: "Suc i + n = length sections"
    by simp_all
  have "(next_state content sections ^^ Suc (Suc n)) (Checking i) =
      (next_state content sections ^^ Suc n) (next_state content sections (Checking i))"
    by (simp only: funpow_Suc_right o_apply)
  also have "\<dots> = loop_result content sections i"
  proof (cases "includes_str content (sections ! i)")
    case True
    with less Suc.IH [OF rest] show ?thesis
      by (simp add: loop_result_unfold del: funpow.simps)
  next
    case False
    with less show ?thesis
      by (simp add: loop_result_unfold del: funpow.simps)
  qed
  finally show ?case .
qed

lemma run_from_start:
  "(next_state content sections ^^ Suc (length sections)) (Checking 0) =
     loop_result content sections 0"
  by (rule run_from) simp

lemma steps_to_result:
  "(step content sections)\<^sup>*\<^sup>* (Checking i) (loop_result content sections i)"
proof (induction "length sections - i" arbitrary: i)
  case 0
  then have "length sections \<le> i"
    by simp
  then show ?case
    by (auto simp: loop_result_beyond intro: step.finish)
next
  case (Suc d)
  then have less: "i < length sections" and d: "d = length sections - Suc i"
    by simp_all
  show ?case
  proof (cases "includes_str content (sections ! i)")
    case True
    with less have "step content sections (Checking i) (Checking (Suc i))"
      by (rule step.present)
    with Suc.hyps(1) [OF d] True less show ?thesis
      by (simp add: loop_result_unfold converse_rtranclp_into_rtranclp)
  next
    case False
    with less have "step content sections (Checking i) (Failed (sections ! i))"
      by (rule step.absent)
    with False less show ?thesis
      by (simp add: loop_result_unfold r_into_rtranclp)
  qed
qed

lemma final_unique:
  assumes "(step content sections)\<^sup>*\<^sup>* s t" and "terminal t"
    and "(step content sections)\<^sup>*\<^sup>* s u" and "terminal u"
  shows "t = u"
  using assms
proof (induction rule: converse_rtranclp_induct)
  case base
  from base(2) show ?case
  proof (cases rule: converse_rtranclpE)
    case base
    then show ?thesis by simp
  next
    case (step y)
    with base(1) show ?thesis
      by (simp add: terminal_no_step)
  qed
next
  case (step x y)
  from step.prems(2) show ?case
  proof (cases rule: converse_rtranclpE)
    case base
    with step.hyps(1) step.prems(3) show ?thesis
      by (simp add: terminal_no_step)
  next
    case (step z)
    with \<open>step content sections x y\<close> have "z = y"
      by (auto dest: step_unique)
    with step show ?thesis
      using step.IH step.prems by simp
  qed
qed

lemma final_state_iff:
  "(step content sections)\<^sup>*\<^sup>* (Checking i) t \<and> terminal t \<longleftrightarrow>
     t = loop_result content sections i"
  by (auto intro: steps_to_result final_unique [OF _ _ steps_to_result])

lemma abs_state_inject: "terminal u \<Longrightarrow> abs_state t = abs_state u \<Longrightarrow> t = u"
  by (cases t; cases u) simp_all

section \<open>The number of steps\<close>

lemma step_rank:
  "step content sections s t \<Longrightarrow> loop_inv content sections s \<Longrightarrow>
     rank sections t < rank sections s"
  by (induction rule: step.induct) auto

lemma relpowp_loop_inv:
  "(step content sections ^^ n) s t \<Longrightarrow> loop_inv content sections s \<Longrightarrow>
     loop_inv content sections t"
  by (induction n arbitrary: t) (auto intro: loop_inv_step)

lemma relpowp_rank:
  "(step content sections ^^ n) s t \<Longrightarrow> loop_inv content sections s \<Longrightarrow>
     n + rank sections t \<le> rank sections s"
proof (induction n arbitrary: t)
  case 0
  then show ?case by simp
next
  case (Suc n)
  from Suc.prems(1) obtain u where u: "(step content sections ^^ n) s u"
    and ut: "step content sections u t"
    by auto
  from u Suc.prems(2) have "loop_inv content sections u"
    by (rule relpowp_loop_inv)
  with ut have "rank sections t < rank sections u"
    by (rule step_rank)
  moreover from u Suc.prems(2) have "n + rank sections u \<le> rank sections s"
    by (rule Suc.IH)
  ultimately show ?case
    by simp
qed

section \<open>The exact length of a run\<close>

lemma passed_prefix_le: "passed_prefix content sections \<le> length sections"
  by (simp add: passed_prefix_def length_takeWhile_le)

lemma passed_prefix_present:
  "k < passed_prefix content sections \<Longrightarrow> includes_str content (sections ! k)"
  unfolding passed_prefix_def
  by (metis nth_mem set_takeWhileD takeWhile_nth)

lemma passed_prefix_absent:
  "passed_prefix content sections < length sections \<Longrightarrow>
     \<not> includes_str content (sections ! passed_prefix content sections)"
  unfolding passed_prefix_def by (rule nth_length_takeWhile)

lemma relpowp_step_funpow:
  "(step content sections ^^ k) s t \<Longrightarrow> t = (next_state content sections ^^ k) s"
  by (induction k arbitrary: t) (auto simp: step_iff_next_state)

lemma steps_along_prefix:
  "k \<le> passed_prefix content sections \<Longrightarrow>
     (step content sections ^^ k) (Checking 0) (Checking k)"
proof (induction k)
  case 0
  then show ?case by simp
next
  case (Suc k)
  then have "k < length sections" and "includes_str content (sections ! k)"
    using passed_prefix_le [of content sections] by (simp_all add: passed_prefix_present)
  then have "step content sections (Checking k) (Checking (Suc k))"
    by (rule step.present)
  with Suc show ?case
    by auto
qed

lemma step_after_prefix:
  "step content sections (Checking (passed_prefix content sections))
     (loop_result content sections 0)"
proof -
  let ?n = "passed_prefix content sections"
  let ?u = "next_state content sections (Checking ?n)"
  have u: "step content sections (Checking ?n) ?u"
    by (simp add: step_iff_next_state)
  have "terminal ?u"
    using passed_prefix_absent [of content sections] by simp
  moreover have "(step content sections)\<^sup>*\<^sup>* (Checking 0) ?u"
    using steps_along_prefix [of ?n content sections] u
    by (meson order_refl relpowp_imp_rtranclp rtranclp.rtrancl_into_rtrancl)
  ultimately have "?u = loop_result content sections 0"
    by (simp add: final_state_iff [symmetric])
  with u show ?thesis
    by simp
qed

lemma run_to_result:
  "(step content sections ^^ Suc (passed_prefix content sections)) (Checking 0)
     (loop_result content sections 0)"
  using steps_along_prefix [OF order_refl] step_after_prefix by (rule relpowp_Suc_I)

lemma relpowp_from_terminal:
  "terminal s \<Longrightarrow> (step content sections ^^ m) s t \<Longrightarrow> m = 0"
proof (cases m)
  case (Suc m')
  assume "terminal s" and "(step content sections ^^ m) s t"
  with Suc obtain u where "step content sections s u"
    by (blast dest: relpowp_Suc_D2)
  with \<open>terminal s\<close> show ?thesis
    by (simp add: terminal_no_step)
qed simp

section \<open>Properties of the machine\<close>

text \<open>
  C7 (refinement).  The state machine and the loop agree: a state is a final
  state that a run from \<open>Checking 0\<close> reaches exactly when it stands for the
  outcome of the completion of \<open>check_sections\<close> on the same text and sections.
\<close>

theorem machine_refines_loop:
  "(step content sections)\<^sup>*\<^sup>* (Checking 0) t \<and> terminal t \<longleftrightarrow>
     abs_state t = outcome_of (check_sections content sections)"
proof
  assume "(step content sections)\<^sup>*\<^sup>* (Checking 0) t \<and> terminal t"
  then have "t = loop_result content sections 0"
    by (simp only: final_state_iff)
  then show "abs_state t = outcome_of (check_sections content sections)"
    by (simp add: abs_state_loop_result)
next
  assume "abs_state t = outcome_of (check_sections content sections)"
  then have "abs_state t = abs_state (loop_result content sections 0)"
    by (simp add: abs_state_loop_result)
  then have "t = loop_result content sections 0"
    by (rule abs_state_inject [OF loop_result_terminal])
  then show "(step content sections)\<^sup>*\<^sup>* (Checking 0) t \<and> terminal t"
    by (simp only: final_state_iff)
qed

theorem machine_refines_loop_witness:
  "(step (js ''A Title'') [js ''Title''])\<^sup>*\<^sup>* (Checking 0) Succeeded \<and> terminal Succeeded \<and>
   abs_state Succeeded = outcome_of (check_sections (js ''A Title'') [js ''Title''])"
proof -
  have "step (js ''A Title'') [js ''Title''] (Checking 0) (Checking (Suc 0))"
    by (rule step.present) (simp_all add: includes_iff_sublist sublist_Cons_right)
  then have "(step (js ''A Title'') [js ''Title''])\<^sup>*\<^sup>* (Checking 0) (Checking (Suc 0))"
    by (rule r_into_rtranclp)
  moreover have "step (js ''A Title'') [js ''Title''] (Checking (Suc 0)) Succeeded"
    by (rule step.finish) simp
  ultimately have "(step (js ''A Title'') [js ''Title''])\<^sup>*\<^sup>* (Checking 0) Succeeded"
    by (rule rtranclp.rtrancl_into_rtrancl)
  with machine_refines_loop [of "js ''A Title''" "[js ''Title'']" Succeeded] show ?thesis
    by simp
qed

text \<open>
  C9 (invariant).  In every state a run from \<open>Checking 0\<close> reaches, the
  invariant holds: while checking at an index, the index is within the list and
  every section before it is contained in the text; after success every section
  is; after failure the named section is the first one that is not.
\<close>

theorem reachable_invariant:
  "reachable content sections s \<Longrightarrow> loop_inv content sections s"
  by (induction rule: reachable.induct) (auto intro: loop_inv_step)

theorem reachable_invariant_witness:
  "reachable (js ''Title'') requiredSections (Failed (js ''Background'')) \<and>
   loop_inv (js ''Title'') requiredSections (Failed (js ''Background''))"
proof -
  have "step (js ''Title'') requiredSections (Checking 0) (Checking (Suc 0))"
    by (rule step.present) (simp_all add: requiredSections_def includes_iff_sublist)
  moreover have "step (js ''Title'') requiredSections (Checking (Suc 0))
      (Failed (requiredSections ! Suc 0))"
    by (rule step.absent)
      (simp_all add: requiredSections_def includes_iff_sublist sublist_Cons_right)
  ultimately have "reachable (js ''Title'') requiredSections (Failed (requiredSections ! Suc 0))"
    by (blast intro: reachable.intros)
  then have r: "reachable (js ''Title'') requiredSections (Failed (js ''Background''))"
    by (simp add: requiredSections_def)
  with reachable_invariant [OF r] show ?thesis
    by simp
qed

text \<open>
  C10 (termination).  The loop always ends, after at most one iteration more
  than there are sections: no run from \<open>Checking 0\<close> has more steps than that,
  and that many iterations of \<open>next_state\<close> end in a final state.
\<close>

theorem machine_terminates:
  "terminal ((next_state content sections ^^ Suc (length sections)) (Checking 0)) \<and>
   (\<forall>n t. (step content sections ^^ n) (Checking 0) t \<longrightarrow> n \<le> Suc (length sections))"
proof
  show "terminal ((next_state content sections ^^ Suc (length sections)) (Checking 0))"
    by (simp only: run_from_start loop_result_terminal)
  show "\<forall>n t. (step content sections ^^ n) (Checking 0) t \<longrightarrow> n \<le> Suc (length sections)"
  proof (intro allI impI)
    fix n t
    assume "(step content sections ^^ n) (Checking 0) t"
    then have "n + rank sections t \<le> rank sections (Checking 0)"
      by (rule relpowp_rank) simp
    then show "n \<le> Suc (length sections)"
      by simp
  qed
qed

theorem machine_terminates_witness:
  "(step (js ''Title'') [js ''Title''] ^^ 2) (Checking 0) Succeeded \<and>
   (2 :: nat) \<le> Suc (length [js ''Title'']) \<and>
   terminal ((next_state (js ''Title'') [js ''Title''] ^^ Suc (length [js ''Title''])) (Checking 0))"
proof -
  have s1: "step (js ''Title'') [js ''Title''] (Checking 0) (Checking (Suc 0))"
    by (simp add: step_iff_next_state)
  have s2: "step (js ''Title'') [js ''Title''] (Checking (Suc 0)) Succeeded"
    by (simp add: step_iff_next_state)
  have "(step (js ''Title'') [js ''Title''] ^^ 0) (Checking 0) (Checking 0)"
    by simp
  from this s1 have "(step (js ''Title'') [js ''Title''] ^^ Suc 0) (Checking 0) (Checking (Suc 0))"
    by (rule relpowp_Suc_I)
  from this s2 have "(step (js ''Title'') [js ''Title''] ^^ Suc (Suc 0)) (Checking 0) Succeeded"
    by (rule relpowp_Suc_I)
  then have run: "(step (js ''Title'') [js ''Title''] ^^ 2) (Checking 0) Succeeded"
    by (simp only: numeral_2_eq_2)
  with machine_terminates [where content = "js ''Title''" and sections = "[js ''Title'']"]
  show ?thesis
    by blast
qed




text \<open>
  C30 (functional).  The loop stops at the first missing section and not
  before: a run from \<open>Checking 0\<close> ends after exactly one step more than the
  number of sections at the head of the list that the text includes, in the
  final state the specification asks for; the sections after the first missing
  one are never looked at.
\<close>

theorem run_length_exact:
  "(step content sections ^^ k) (Checking 0) t \<and> terminal t \<longleftrightarrow>
     k = Suc (passed_prefix content sections) \<and> t = loop_result content sections 0"
proof
  assume "k = Suc (passed_prefix content sections) \<and> t = loop_result content sections 0"
  then show "(step content sections ^^ k) (Checking 0) t \<and> terminal t"
    by (simp only: run_to_result loop_result_terminal)
next
  let ?n = "passed_prefix content sections"
  assume run: "(step content sections ^^ k) (Checking 0) t \<and> terminal t"
  then have t: "t = loop_result content sections 0"
    by (metis final_state_iff relpowp_imp_rtranclp)
  have "\<not> k \<le> ?n"
  proof
    assume "k \<le> ?n"
    then have "(step content sections ^^ k) (Checking 0) (Checking k)"
      by (rule steps_along_prefix)
    with run have "t = Checking k"
      by (metis relpowp_step_funpow)
    with run show False
      by simp
  qed
  then obtain m where k: "k = Suc ?n + m"
    by (metis Suc_leI le_Suc_ex not_le)
  have "step content sections ^^ k = step content sections ^^ Suc ?n OO step content sections ^^ m"
    unfolding k by (rule relpowp_add)
  with run have "(step content sections ^^ Suc ?n OO step content sections ^^ m) (Checking 0) t"
    by (simp only:)
  then obtain u where "(step content sections ^^ Suc ?n) (Checking 0) u"
    and rest: "(step content sections ^^ m) u t"
    by blast
  with run_to_result [of content sections] have "u = loop_result content sections 0"
    by (metis relpowp_step_funpow)
  with rest have "m = 0"
    by (auto dest: relpowp_from_terminal [rotated])
  with k t show "k = Suc ?n \<and> t = loop_result content sections 0"
    by simp
qed

end
