(* ===== verification/UTF8_Decode.thy ===== *)
theory UTF8_Decode
  imports JS_String
begin

text \<open>
  The decoding that \<^verbatim>\<open>fs.readFileSync(path, "utf8")\<close> (\<^verbatim>\<open>src/validate.js\<close>, line 5)
  applies to the bytes of the file before the script sees them as a string.

  The runtime decodes UTF-8 with replacement: a malformed sequence becomes
  U+FFFD and decoding goes on; it never fails.  The model follows the UTF-8
  decoder of the Encoding Standard, which states that behaviour step by step.
  \<^item> \<open>utf8_decoder\<close> is the decoder's state (the code point collected so far,
    the bytes seen and needed of the current sequence, the bounds of the next
    byte); \<open>fresh\<close> is its initial state.
  \<^item> \<open>handler\<close> is the decoder's handler for one byte: it returns a code point
    (\<open>Item\<close>), nothing yet (\<open>Continue\<close>) or an error (\<open>Decode_Error\<close>), the
    next state, and whether the byte is put back to be read again.
  \<^item> \<open>decode_from\<close> runs the handler over the bytes with the error mode
    \<^emph>\<open>replacement\<close>, and emits U+FFFD for a sequence cut off by the end of the
    input.  It is a \<^theory_text>\<open>function\<close>: a byte that is put back is read again
    by a decoder with no pending sequence, which is the termination measure.
  \<^item> \<open>UTF16EncodeCodePoint\<close> and \<open>CodePointsToString\<close> turn the code points
    into the code units of a string, as the language defines them;
    \<open>utf8_decode\<close> is the whole decoding.
  Bytes are \<open>8 word\<close>, code units \<open>16 word\<close>; code points are natural numbers,
  and the handler's bit operations on them are shown to be the arithmetic one
  expects (\<open>handler_arith\<close>).

  For the proofs: \<open>decoder_ok\<close> is the invariant of the decoder's state, with
  the case rule \<open>decoder_okE\<close>; \<open>scalar_value\<close> are the code points a well-formed
  text has, \<open>beyond_ascii\<close> those of them from U+0080 on; \<open>pending\<close> says that
  a sequence is under way, and \<open>credit\<close> counts one for it.

  The lemmas give the handler on every kind of byte and state, then one byte
  of input (\<open>decode_ascii\<close>, \<open>decode_beyond_asciiE\<close>), then the induction rule
  \<open>decode_induct\<close> that the facts on the whole input are proved with: every
  code point decoded is a scalar value, and the string is no longer than the
  input.
\<close>

unbundle bit_operations_syntax

section \<open>The decoder\<close>

type_synonym byte = "8 word"

record utf8_decoder =
  utf8_code_point :: nat
  utf8_bytes_seen :: nat
  utf8_bytes_needed :: nat
  utf8_lower_boundary :: nat
  utf8_upper_boundary :: nat

datatype handler_result = Continue | Item nat | Decode_Error

definition fresh :: utf8_decoder where
  "fresh = \<lparr>utf8_code_point = 0, utf8_bytes_seen = 0, utf8_bytes_needed = 0,
     utf8_lower_boundary = 0x80, utf8_upper_boundary = 0xBF\<rparr>"

definition handler :: "utf8_decoder \<Rightarrow> byte \<Rightarrow> handler_result \<times> utf8_decoder \<times> bool" where
  "handler dec byte =
     (let b = unat byte in
      if utf8_bytes_needed dec = 0 then
        (if b \<le> 0x7F then (Item b, dec, False)
         else if 0xC2 \<le> b \<and> b \<le> 0xDF then
           (Continue, dec\<lparr>utf8_bytes_needed := 1, utf8_code_point := b AND 0x1F\<rparr>, False)
         else if 0xE0 \<le> b \<and> b \<le> 0xEF then
           (Continue,
            dec\<lparr>utf8_lower_boundary := (if b = 0xE0 then 0xA0 else utf8_lower_boundary dec),
                utf8_upper_boundary := (if b = 0xED then 0x9F else utf8_upper_boundary dec),
                utf8_bytes_needed := 2, utf8_code_point := b AND 0xF\<rparr>, False)
         else if 0xF0 \<le> b \<and> b \<le> 0xF4 then
           (Continue,
            dec\<lparr>utf8_lower_boundary := (if b = 0xF0 then 0x90 else utf8_lower_boundary dec),
                utf8_upper_boundary := (if b = 0xF4 then 0x8F else utf8_upper_boundary dec),
                utf8_bytes_needed := 3, utf8_code_point := b AND 0x7\<rparr>, False)
         else (Decode_Error, dec, False))
      else if \<not> (utf8_lower_boundary dec \<le> b \<and> b \<le> utf8_upper_boundary dec) then
        (Decode_Error, fresh, True)
      else
        (let dec' = dec\<lparr>utf8_lower_boundary := 0x80, utf8_upper_boundary := 0xBF,
               utf8_code_point := push_bit 6 (utf8_code_point dec) OR (b AND 0x3F),
               utf8_bytes_seen := utf8_bytes_seen dec + 1\<rparr>
         in if utf8_bytes_seen dec' \<noteq> utf8_bytes_needed dec' then (Continue, dec', False)
            else (Item (utf8_code_point dec'),
                  dec'\<lparr>utf8_code_point := 0, utf8_bytes_needed := 0, utf8_bytes_seen := 0\<rparr>,
                  False)))"

function decode_from :: "utf8_decoder \<Rightarrow> byte list \<Rightarrow> nat list" where
  "decode_from dec [] = (if utf8_bytes_needed dec \<noteq> 0 then [0xFFFD] else [])"
| "decode_from dec (byte # rest) =
     (case handler dec byte of
        (result, dec', restored) \<Rightarrow>
          (case result of Continue \<Rightarrow> [] | Item c \<Rightarrow> [c] | Decode_Error \<Rightarrow> [0xFFFD]) @
          decode_from dec' (if restored then byte # rest else rest))"
  by pat_completeness auto

termination
  by (relation "measure (\<lambda>(dec, bytes).
        2 * length bytes + (if utf8_bytes_needed dec = 0 then 0 else 1))")
    (auto simp: handler_def fresh_def Let_def split: if_splits)

definition UTF16EncodeCodePoint :: "nat \<Rightarrow> js_string" where
  "UTF16EncodeCodePoint cp =
     (if cp \<le> 0xFFFF then [of_nat cp]
      else [of_nat ((cp - 0x10000) div 0x400 + 0xD800),
            of_nat ((cp - 0x10000) mod 0x400 + 0xDC00)])"

definition CodePointsToString :: "nat list \<Rightarrow> js_string" where
  "CodePointsToString text = concat (map UTF16EncodeCodePoint text)"

definition utf8_decode :: "byte list \<Rightarrow> js_string" where
  "utf8_decode bytes = CodePointsToString (decode_from fresh bytes)"

declare decode_from.simps(2) [simp del]

section \<open>Definitions for the specification\<close>

definition scalar_value :: "nat \<Rightarrow> bool" where
  "scalar_value c \<longleftrightarrow> c \<le> 0x10FFFF \<and> \<not> (0xD800 \<le> c \<and> c \<le> 0xDFFF)"

definition beyond_ascii :: "nat \<Rightarrow> bool" where
  "beyond_ascii c \<longleftrightarrow> scalar_value c \<and> 0x80 \<le> c"

definition pending :: "utf8_decoder \<Rightarrow> bool" where
  "pending dec \<longleftrightarrow> utf8_bytes_needed dec \<noteq> 0"

definition credit :: "utf8_decoder \<Rightarrow> nat" where
  "credit dec = (if pending dec then 1 else 0)"

definition in_range :: "utf8_decoder \<Rightarrow> byte \<Rightarrow> bool" where
  "in_range dec byte \<longleftrightarrow>
     utf8_lower_boundary dec \<le> unat byte \<and> unat byte \<le> utf8_upper_boundary dec"

definition shifted_in :: "utf8_decoder \<Rightarrow> byte \<Rightarrow> nat" where
  "shifted_in dec byte = utf8_code_point dec * 64 + (unat byte - 0x80)"

definition decoder_ok :: "utf8_decoder \<Rightarrow> bool" where
  "decoder_ok dec \<longleftrightarrow>
     (let c = utf8_code_point dec; seen = utf8_bytes_seen dec; needed = utf8_bytes_needed dec;
          lower = utf8_lower_boundary dec; upper = utf8_upper_boundary dec
      in (needed = 0 \<and> seen = 0 \<and> c = 0 \<and> lower = 0x80 \<and> upper = 0xBF) \<or>
         (needed = 1 \<and> seen = 0 \<and> 2 \<le> c \<and> c \<le> 0x1F \<and> lower = 0x80 \<and> upper = 0xBF) \<or>
         (needed = 2 \<and> seen = 0 \<and> c \<le> 0xF \<and>
            lower = (if c = 0 then 0xA0 else 0x80) \<and> upper = (if c = 0xD then 0x9F else 0xBF)) \<or>
         (needed = 2 \<and> seen = 1 \<and> 0x20 \<le> c \<and> c \<le> 0x3FF \<and> \<not> (0x360 \<le> c \<and> c \<le> 0x37F) \<and>
            lower = 0x80 \<and> upper = 0xBF) \<or>
         (needed = 3 \<and> seen = 0 \<and> c \<le> 4 \<and>
            lower = (if c = 0 then 0x90 else 0x80) \<and> upper = (if c = 4 then 0x8F else 0xBF)) \<or>
         (needed = 3 \<and> seen = 1 \<and> 0x10 \<le> c \<and> c \<le> 0x10F \<and> lower = 0x80 \<and> upper = 0xBF) \<or>
         (needed = 3 \<and> seen = 2 \<and> 0x400 \<le> c \<and> c \<le> 0x43FF \<and> lower = 0x80 \<and> upper = 0xBF))"

section \<open>Bit operations as arithmetic\<close>

lemma push_bit_and_take_bit_nat: "push_bit n c AND take_bit n m = (0::nat)"
  by (rule bit_eqI) (auto simp: bit_and_iff bit_push_bit_iff bit_take_bit_iff)

lemma push_bit_or_small:
  fixes c m :: nat
  assumes "m < 2 ^ n"
  shows "push_bit n c OR m = c * 2 ^ n + m"
proof -
  from assms have "take_bit n m = m"
    by (simp add: take_bit_eq_mod)
  with push_bit_and_take_bit_nat [of n c m] have "push_bit n c AND m = 0"
    by simp
  then have "push_bit n c + m = push_bit n c OR m"
    by (rule disjunctive_add_eq_or)
  then show ?thesis
    by (simp add: push_bit_eq_mult)
qed

lemma and_mask_nat [simp]:
  fixes n :: nat
  shows "n AND 0x3F = n mod 64" and "n AND 0x1F = n mod 32"
    and "n AND 0xF = n mod 16" and "n AND 0x7 = n mod 8"
  using take_bit_eq_mask [of 6 n] take_bit_eq_mask [of 5 n]
    take_bit_eq_mask [of 4 n] take_bit_eq_mask [of 3 n]
  by (simp_all add: take_bit_eq_mod mask_numeral)

lemma shift_in_six_bits:
  fixes c n :: nat
  shows "push_bit 6 c OR (n AND 0x3F) = c * 64 + n mod 64"
  using push_bit_or_small [of "n mod 64" 6 c] by simp

lemma mask_lead:
  fixes b :: nat
  shows "0xC2 \<le> b \<Longrightarrow> b \<le> 0xDF \<Longrightarrow> b mod 32 = b - 0xC0"
    and "0xE0 \<le> b \<Longrightarrow> b \<le> 0xEF \<Longrightarrow> b mod 16 = b - 0xE0"
    and "0xF0 \<le> b \<Longrightarrow> b \<le> 0xF4 \<Longrightarrow> b mod 8 = b - 0xF0"
    and "0x80 \<le> b \<Longrightarrow> b \<le> 0xBF \<Longrightarrow> b mod 64 = b - 0x80"
  by (rule mod_nat_eqI; auto)+

lemma unat_byte_less [simp]: "unat (byte :: byte) < 256"
  using unsigned_less [of byte] by simp

lemma unat_byte_of_nat: "n < 256 \<Longrightarrow> unat (of_nat n :: byte) = n"
  by (simp add: unat_of_nat)

lemma unat_unit_of_nat: "n < 65536 \<Longrightarrow> unat (of_nat n :: code_unit) = n"
  by (simp add: unat_of_nat)

section \<open>The handler, one byte at a time\<close>

lemma decoder_ok_fresh [simp]: "decoder_ok fresh"
  by (simp add: decoder_ok_def fresh_def)

lemma pending_fresh [simp]: "\<not> pending fresh"
  by (simp add: pending_def fresh_def)

lemma bytes_needed_fresh [simp]: "utf8_bytes_needed fresh = 0"
  by (simp add: fresh_def)

lemma credit_fresh [simp]: "credit fresh = 0"
  by (simp add: credit_def)

lemma not_pending_fresh: "decoder_ok dec \<Longrightarrow> \<not> pending dec \<Longrightarrow> dec = fresh"
  by (simp add: decoder_ok_def pending_def fresh_def Let_def)

lemma handler_arith:
  "handler dec byte =
     (let b = unat byte in
      if utf8_bytes_needed dec = 0 then
        (if b \<le> 0x7F then (Item b, dec, False)
         else if 0xC2 \<le> b \<and> b \<le> 0xDF then
           (Continue, dec\<lparr>utf8_bytes_needed := 1, utf8_code_point := b - 0xC0\<rparr>, False)
         else if 0xE0 \<le> b \<and> b \<le> 0xEF then
           (Continue,
            dec\<lparr>utf8_lower_boundary := (if b = 0xE0 then 0xA0 else utf8_lower_boundary dec),
                utf8_upper_boundary := (if b = 0xED then 0x9F else utf8_upper_boundary dec),
                utf8_bytes_needed := 2, utf8_code_point := b - 0xE0\<rparr>, False)
         else if 0xF0 \<le> b \<and> b \<le> 0xF4 then
           (Continue,
            dec\<lparr>utf8_lower_boundary := (if b = 0xF0 then 0x90 else utf8_lower_boundary dec),
                utf8_upper_boundary := (if b = 0xF4 then 0x8F else utf8_upper_boundary dec),
                utf8_bytes_needed := 3, utf8_code_point := b - 0xF0\<rparr>, False)
         else (Decode_Error, dec, False))
      else if \<not> (utf8_lower_boundary dec \<le> b \<and> b \<le> utf8_upper_boundary dec) then
        (Decode_Error, fresh, True)
      else if Suc (utf8_bytes_seen dec) \<noteq> utf8_bytes_needed dec then
        (Continue,
         dec\<lparr>utf8_lower_boundary := 0x80, utf8_upper_boundary := 0xBF,
             utf8_code_point := utf8_code_point dec * 64 + b mod 64,
             utf8_bytes_seen := Suc (utf8_bytes_seen dec)\<rparr>, False)
      else
        (Item (utf8_code_point dec * 64 + b mod 64),
         dec\<lparr>utf8_lower_boundary := 0x80, utf8_upper_boundary := 0xBF,
             utf8_code_point := 0, utf8_bytes_needed := 0, utf8_bytes_seen := 0\<rparr>, False))"
  unfolding handler_def shift_in_six_bits
  by (simp add: Let_def mask_lead)
lemma decoder_okE [consumes 1, case_names idle two three three_mid four four_mid four_last]:
  assumes "decoder_ok dec"
  obtains
    (idle) "dec = fresh"
  | (two) c where "dec = \<lparr>utf8_code_point = c, utf8_bytes_seen = 0, utf8_bytes_needed = 1,
        utf8_lower_boundary = 0x80, utf8_upper_boundary = 0xBF\<rparr>" "2 \<le> c" "c \<le> 0x1F"
  | (three) c where "dec = \<lparr>utf8_code_point = c, utf8_bytes_seen = 0, utf8_bytes_needed = 2,
        utf8_lower_boundary = (if c = 0 then 0xA0 else 0x80),
        utf8_upper_boundary = (if c = 0xD then 0x9F else 0xBF)\<rparr>" "c \<le> 0xF"
  | (three_mid) c where "dec = \<lparr>utf8_code_point = c, utf8_bytes_seen = 1, utf8_bytes_needed = 2,
        utf8_lower_boundary = 0x80, utf8_upper_boundary = 0xBF\<rparr>"
        "0x20 \<le> c" "c \<le> 0x3FF" "\<not> (0x360 \<le> c \<and> c \<le> 0x37F)"
  | (four) c where "dec = \<lparr>utf8_code_point = c, utf8_bytes_seen = 0, utf8_bytes_needed = 3,
        utf8_lower_boundary = (if c = 0 then 0x90 else 0x80),
        utf8_upper_boundary = (if c = 4 then 0x8F else 0xBF)\<rparr>" "c \<le> 4"
  | (four_mid) c where "dec = \<lparr>utf8_code_point = c, utf8_bytes_seen = 1, utf8_bytes_needed = 3,
        utf8_lower_boundary = 0x80, utf8_upper_boundary = 0xBF\<rparr>" "0x10 \<le> c" "c \<le> 0x10F"
  | (four_last) c where "dec = \<lparr>utf8_code_point = c, utf8_bytes_seen = 2, utf8_bytes_needed = 3,
        utf8_lower_boundary = 0x80, utf8_upper_boundary = 0xBF\<rparr>" "0x400 \<le> c" "c \<le> 0x43FF"
  using assms by (cases dec) (auto simp: decoder_ok_def fresh_def Let_def)

lemma boundaries_ok:
  "decoder_ok dec \<Longrightarrow> 0x80 \<le> utf8_lower_boundary dec \<and> utf8_upper_boundary dec \<le> 0xBF"
  by (cases dec rule: decoder_okE) (simp_all add: fresh_def)

lemma handler_out_of_range:
  "pending dec \<Longrightarrow> \<not> in_range dec byte \<Longrightarrow> handler dec byte = (Decode_Error, fresh, True)"
  by (simp add: handler_arith pending_def in_range_def)

lemma handler_more:
  assumes "decoder_ok dec" and "pending dec" and "in_range dec byte"
    and "Suc (utf8_bytes_seen dec) \<noteq> utf8_bytes_needed dec"
  shows "handler dec byte =
      (Continue, dec\<lparr>utf8_lower_boundary := 0x80, utf8_upper_boundary := 0xBF,
         utf8_code_point := shifted_in dec byte,
         utf8_bytes_seen := Suc (utf8_bytes_seen dec)\<rparr>, False)"
  using assms boundaries_ok [of dec]
  by (simp add: handler_arith pending_def in_range_def shifted_in_def mask_lead)

lemma handler_last:
  assumes "decoder_ok dec" and "pending dec" and "in_range dec byte"
    and "Suc (utf8_bytes_seen dec) = utf8_bytes_needed dec"
  shows "handler dec byte = (Item (shifted_in dec byte), fresh, False)"
  using assms boundaries_ok [of dec]
  by (cases dec rule: decoder_okE)
    (simp_all add: handler_arith pending_def in_range_def shifted_in_def mask_lead fresh_def)

lemma step_more_ok:
  assumes "decoder_ok dec" and "pending dec" and "in_range dec byte"
    and "Suc (utf8_bytes_seen dec) \<noteq> utf8_bytes_needed dec"
  shows "decoder_ok (dec\<lparr>utf8_lower_boundary := 0x80, utf8_upper_boundary := 0xBF,
         utf8_code_point := shifted_in dec byte,
         utf8_bytes_seen := Suc (utf8_bytes_seen dec)\<rparr>)"
  using assms
  by (cases dec rule: decoder_okE)
    (auto simp: decoder_ok_def pending_def in_range_def shifted_in_def fresh_def Let_def
      split: if_splits)

lemma step_last_scalar:
  assumes "decoder_ok dec" and "pending dec" and "in_range dec byte"
    and "Suc (utf8_bytes_seen dec) = utf8_bytes_needed dec"
  shows "scalar_value (shifted_in dec byte) \<and> 0x80 \<le> shifted_in dec byte"
  using assms
  by (cases dec rule: decoder_okE)
    (auto simp: scalar_value_def pending_def in_range_def shifted_in_def fresh_def)

lemma handler_lead:
  assumes "0xC2 \<le> unat byte" and "unat byte \<le> 0xF4"
  shows "\<exists>dec'. handler fresh byte = (Continue, dec', False) \<and> decoder_ok dec' \<and> pending dec'"
  using assms
  by (auto simp: handler_arith fresh_def decoder_ok_def pending_def Let_def)

lemma handler_invalid_lead:
  assumes "0x80 \<le> unat byte" and "\<not> (0xC2 \<le> unat byte \<and> unat byte \<le> 0xF4)"
  shows "handler fresh byte = (Decode_Error, fresh, False)"
  using assms
  by (auto simp: handler_arith fresh_def Let_def)

lemma handler_ascii_fresh:
  "unat byte < 0x80 \<Longrightarrow> handler fresh byte = (Item (unat byte), fresh, False)"
  by (simp add: handler_def fresh_def)

section \<open>One byte of the input\<close>

lemma decode_ascii:
  assumes "decoder_ok dec" and "unat byte < 0x80"
  shows "decode_from dec (byte # rest) =
      (if pending dec then [0xFFFD] else []) @ unat byte # decode_from fresh rest"
proof (cases "pending dec")
  case False
  with assms(1) have "dec = fresh"
    by (rule not_pending_fresh)
  with assms(2) show ?thesis
    by (simp add: decode_from.simps(2) handler_ascii_fresh)
next
  case True
  with assms boundaries_ok [of dec] have "\<not> in_range dec byte"
    by (simp add: in_range_def)
  with True assms(2) show ?thesis
    by (simp add: decode_from.simps(2) handler_out_of_range handler_ascii_fresh)
qed

lemma decode_restore:
  "pending dec \<Longrightarrow> \<not> in_range dec byte \<Longrightarrow>
     decode_from dec (byte # rest) = 0xFFFD # decode_from fresh (byte # rest)"
  by (simp add: decode_from.simps(2) handler_out_of_range)

lemma decode_more:
  assumes "decoder_ok dec" and "pending dec" and "in_range dec byte"
    and "Suc (utf8_bytes_seen dec) \<noteq> utf8_bytes_needed dec"
  shows "decode_from dec (byte # rest) =
      decode_from (dec\<lparr>utf8_lower_boundary := 0x80, utf8_upper_boundary := 0xBF,
         utf8_code_point := shifted_in dec byte,
         utf8_bytes_seen := Suc (utf8_bytes_seen dec)\<rparr>) rest"
  using assms by (simp add: decode_from.simps(2) handler_more)

lemma decode_last:
  assumes "decoder_ok dec" and "pending dec" and "in_range dec byte"
    and "Suc (utf8_bytes_seen dec) = utf8_bytes_needed dec"
  shows "decode_from dec (byte # rest) = shifted_in dec byte # decode_from fresh rest"
  using assms by (simp add: decode_from.simps(2) handler_last)

lemma beyond_ascii_replacement [simp]: "beyond_ascii 0xFFFD"
  by (simp add: beyond_ascii_def scalar_value_def)

lemma length_UTF16EncodeCodePoint: "length (UTF16EncodeCodePoint c) \<le> 2"
  by (simp add: UTF16EncodeCodePoint_def)

lemma CodePointsToString_simps [simp]:
  "CodePointsToString [] = []"
  "CodePointsToString (c # cs) = UTF16EncodeCodePoint c @ CodePointsToString cs"
  "CodePointsToString (cs @ ds) = CodePointsToString cs @ CodePointsToString ds"
  by (simp_all add: CodePointsToString_def)

lemma decode_beyond_ascii_freshE:
  assumes "0x80 \<le> unat byte"
  obtains cs dec' where "decode_from fresh (byte # rest) = cs @ decode_from dec' rest"
    and "decoder_ok dec'" and "list_all beyond_ascii cs" and "cs = [] \<Longrightarrow> pending dec'"
    and "length (CodePointsToString cs) + credit dec' \<le> 1"
proof (cases "0xC2 \<le> unat byte \<and> unat byte \<le> 0xF4")
  case True
  then obtain dec' where "handler fresh byte = (Continue, dec', False)"
    and "decoder_ok dec'" and "pending dec'"
    using handler_lead by blast
  then show thesis
    by (intro that [of "[]" dec']) (simp_all add: decode_from.simps(2) credit_def)
next
  case False
  with assms have "handler fresh byte = (Decode_Error, fresh, False)"
    by (rule handler_invalid_lead)
  then show thesis
    by (intro that [of "[0xFFFD]" fresh])
      (simp_all add: decode_from.simps(2) UTF16EncodeCodePoint_def)
qed

lemma continuation_cases [case_names idle restore more last]:
  obtains "\<not> pending dec"
    | "pending dec" and "\<not> in_range dec byte"
    | "pending dec" and "in_range dec byte"
      and "Suc (utf8_bytes_seen dec) \<noteq> utf8_bytes_needed dec"
    | "pending dec" and "in_range dec byte"
      and "Suc (utf8_bytes_seen dec) = utf8_bytes_needed dec"
  by blast

lemma handler_fresh_cases [case_names item continue error]:
  obtains (item) "handler fresh byte = (Item (unat byte), fresh, False)" and "unat byte < 0x80"
  | (continue) dec' where "handler fresh byte = (Continue, dec', False)"
      and "decoder_ok dec'" and "pending dec'"
  | (error) "handler fresh byte = (Decode_Error, fresh, False)"
proof -
  consider "unat byte < 0x80" | "0xC2 \<le> unat byte" "unat byte \<le> 0xF4"
    | "0x80 \<le> unat byte" "\<not> (0xC2 \<le> unat byte \<and> unat byte \<le> 0xF4)"
    by atomize_elim linarith
  then show thesis
  proof cases
    case 1
    then show thesis
      by (intro item) (simp_all add: handler_ascii_fresh)
  next
    case 2
    then show thesis
      using handler_lead [of byte] continue by blast
  next
    case 3
    then show thesis
      by (intro error) (rule handler_invalid_lead)
  qed
qed

lemma handler_cases [consumes 1, case_names item continue error]:
  assumes "decoder_ok dec"
  obtains (item) c where "handler dec byte = (Item c, fresh, False)" and "scalar_value c"
  | (continue) dec' where "handler dec byte = (Continue, dec', False)"
      and "decoder_ok dec'" and "pending dec'"
  | (error) restored where "handler dec byte = (Decode_Error, fresh, restored)"
proof (cases rule: continuation_cases [where dec = dec and byte = byte])
  case idle
  with assms have "dec = fresh"
    by (rule not_pending_fresh)
  then show thesis
    by (cases rule: handler_fresh_cases [where byte = byte])
      (auto intro: item continue error simp: scalar_value_def)
next
  case restore
  then show thesis
    by (intro error [of True]) (simp add: handler_out_of_range)
next
  case more
  with assms show thesis
    by (intro continue [of "dec\<lparr>utf8_lower_boundary := 0x80, utf8_upper_boundary := 0xBF,
          utf8_code_point := shifted_in dec byte,
          utf8_bytes_seen := Suc (utf8_bytes_seen dec)\<rparr>"])
      (simp_all add: handler_more step_more_ok pending_def)
next
  case last
  with assms show thesis
    by (intro item [of "shifted_in dec byte"]) (simp_all add: handler_last step_last_scalar)
qed

lemma decode_beyond_asciiE:
  assumes ok: "decoder_ok dec" and byte: "0x80 \<le> unat byte"
  obtains cs dec' where "decode_from dec (byte # rest) = cs @ decode_from dec' rest"
    and "decoder_ok dec'" and "list_all beyond_ascii cs" and "cs = [] \<Longrightarrow> pending dec'"
    and "length (CodePointsToString cs) + credit dec' \<le> 1 + credit dec"
proof -
  from byte obtain cs dec' where from_fresh:
    "decode_from fresh (byte # rest) = cs @ decode_from dec' rest" "decoder_ok dec'"
    "list_all beyond_ascii cs" "cs = [] \<Longrightarrow> pending dec'"
    "length (CodePointsToString cs) + credit dec' \<le> 1"
    by (rule decode_beyond_ascii_freshE [where rest = rest]) blast
  show thesis
  proof (cases rule: continuation_cases [where dec = dec and byte = byte])
    case idle
    with ok have "dec = fresh"
      by (rule not_pending_fresh)
    with from_fresh show thesis
      by (intro that [of cs dec']) simp_all
  next
    case restore
    with from_fresh show thesis
      by (intro that [of "0xFFFD # cs" dec'])
        (simp_all add: decode_restore credit_def UTF16EncodeCodePoint_def)
  next
    case more
    with ok show thesis
      by (intro that [of "[]" "dec\<lparr>utf8_lower_boundary := 0x80, utf8_upper_boundary := 0xBF,
          utf8_code_point := shifted_in dec byte,
          utf8_bytes_seen := Suc (utf8_bytes_seen dec)\<rparr>"])
        (simp_all add: decode_more step_more_ok credit_def pending_def)
  next
    case last
    with ok show thesis
      using length_UTF16EncodeCodePoint [of "shifted_in dec byte"]
      by (intro that [of "[shifted_in dec byte]" fresh])
        (simp_all add: decode_last step_last_scalar credit_def beyond_ascii_def)
  qed
qed

section \<open>All of the input\<close>

lemma decode_induct [consumes 1, case_names Nil ascii beyond]:
  assumes ok: "decoder_ok dec"
    and base: "\<And>dec. decoder_ok dec \<Longrightarrow> P dec []"
    and plain: "\<And>dec byte rest. decoder_ok dec \<Longrightarrow> unat byte < 0x80 \<Longrightarrow>
        P fresh rest \<Longrightarrow> P dec (byte # rest)"
    and other: "\<And>dec byte rest cs dec'. decoder_ok dec \<Longrightarrow> 0x80 \<le> unat byte \<Longrightarrow>
        decode_from dec (byte # rest) = cs @ decode_from dec' rest \<Longrightarrow> decoder_ok dec' \<Longrightarrow>
        list_all beyond_ascii cs \<Longrightarrow> (cs = [] \<Longrightarrow> pending dec') \<Longrightarrow>
        length (CodePointsToString cs) + credit dec' \<le> 1 + credit dec \<Longrightarrow>
        P dec' rest \<Longrightarrow> P dec (byte # rest)"
  shows "P dec bytes"
  using ok
proof (induction bytes arbitrary: dec)
  case Nil
  then show ?case
    by (rule base)
next
  case (Cons byte rest)
  show ?case
  proof (cases "unat byte < 0x80")
    case True
    with Cons.prems show ?thesis
      by (rule plain) (rule Cons.IH [OF decoder_ok_fresh])
  next
    case False
    then have byte: "0x80 \<le> unat byte"
      by simp
    with Cons.prems obtain cs dec' where step:
      "decode_from dec (byte # rest) = cs @ decode_from dec' rest" "decoder_ok dec'"
      "list_all beyond_ascii cs" "cs = [] \<Longrightarrow> pending dec'"
      "length (CodePointsToString cs) + credit dec' \<le> 1 + credit dec"
      by (rule decode_beyond_asciiE [where rest = rest]) blast
    show ?thesis
      by (rule other [OF Cons.prems byte step(1-3) _ step(5) Cons.IH [OF step(2)]])
        (rule step(4))
  qed
qed

lemma decode_from_scalar:
  "decoder_ok dec \<Longrightarrow> list_all scalar_value (decode_from dec bytes)"
proof (induction dec bytes rule: decode_induct)
  case (Nil dec)
  then show ?case
    by (simp add: scalar_value_def)
next
  case (ascii dec byte rest)
  then show ?case
    by (simp add: decode_ascii) (simp add: scalar_value_def)
next
  case (beyond dec byte rest cs dec')
  then show ?case
    by (auto simp: list_all_iff beyond_ascii_def)
qed

lemma decode_from_length:
  "decoder_ok dec \<Longrightarrow>
     length (CodePointsToString (decode_from dec bytes)) \<le> length bytes + credit dec"
proof (induction dec bytes rule: decode_induct)
  case (Nil dec)
  then show ?case
    by (simp add: credit_def pending_def UTF16EncodeCodePoint_def)
next
  case (ascii dec byte rest)
  then show ?case
    by (simp add: decode_ascii credit_def UTF16EncodeCodePoint_def)
next
  case (beyond dec byte rest cs dec')
  then show ?case
    by simp
qed

end
