(* ===== verification/UTF8_Text.thy ===== *)
theory UTF8_Text
  imports UTF8_Decode
begin

text \<open>
  What the decoded text is like, for every input.

  \<^item> \<open>unit_of_byte\<close> is the code unit with the value of a byte and
    \<open>byte_of_unit\<close> the byte with the value of a code unit; \<open>ascii_byte\<close> and
    \<open>ascii_unit\<close> are the values below 0x80.
  \<^item> \<open>well_formed_utf16\<close> are the strings in which every surrogate is one half
    of a pair.
  \<^item> \<open>starts_beyond\<close> says that a string begins with a code unit that is not
    ASCII.

  The lemmas show that ASCII bytes decode to themselves and that nothing else
  decodes to ASCII, so that an ASCII string occurs in the decoded text exactly
  where its bytes occur in the input (\<open>sublist_decoded_iff\<close>); that the decoded
  text is well formed; and that the byte order mark is kept.
\<close>

unbundle bit_operations_syntax

section \<open>Definitions\<close>

definition unit_of_byte :: "byte \<Rightarrow> code_unit" where
  "unit_of_byte byte = of_nat (unat byte)"

definition byte_of_unit :: "code_unit \<Rightarrow> byte" where
  "byte_of_unit u = of_nat (unat u)"

definition ascii_byte :: "byte \<Rightarrow> bool" where
  "ascii_byte byte \<longleftrightarrow> unat byte < 0x80"

definition ascii_unit :: "code_unit \<Rightarrow> bool" where
  "ascii_unit u \<longleftrightarrow> unat u < 0x80"

definition high_surrogate :: "code_unit \<Rightarrow> bool" where
  "high_surrogate u \<longleftrightarrow> 0xD800 \<le> unat u \<and> unat u \<le> 0xDBFF"

definition low_surrogate :: "code_unit \<Rightarrow> bool" where
  "low_surrogate u \<longleftrightarrow> 0xDC00 \<le> unat u \<and> unat u \<le> 0xDFFF"

fun well_formed_utf16 :: "js_string \<Rightarrow> bool" where
  "well_formed_utf16 [] = True"
| "well_formed_utf16 [u] = (\<not> high_surrogate u \<and> \<not> low_surrogate u)"
| "well_formed_utf16 (u # v # rest) =
     (if high_surrogate u then low_surrogate v \<and> well_formed_utf16 rest
      else \<not> low_surrogate u \<and> well_formed_utf16 (v # rest))"

definition starts_beyond :: "js_string \<Rightarrow> bool" where
  "starts_beyond us \<longleftrightarrow> (case us of [] \<Rightarrow> False | u # _ \<Rightarrow> \<not> ascii_unit u)"

section \<open>Code units\<close>

lemma UTF16EncodeCodePoint_ascii:
  "c < 0x80 \<Longrightarrow> UTF16EncodeCodePoint c = [of_nat c]"
  by (simp add: UTF16EncodeCodePoint_def)

lemma unat_unit_of_byte [simp]: "unat (unit_of_byte byte) = unat byte"
  unfolding unit_of_byte_def
  by (rule unat_unit_of_nat) (rule less_trans [OF unat_byte_less], simp)

lemma ascii_unit_of_byte [simp]: "ascii_unit (unit_of_byte byte) \<longleftrightarrow> ascii_byte byte"
  by (simp add: ascii_unit_def ascii_byte_def)

lemma unat_byte_of_unit: "unat u < 256 \<Longrightarrow> unat (byte_of_unit u) = unat u"
  unfolding byte_of_unit_def by (rule unat_byte_of_nat)

lemma unit_of_byte_of_unit: "ascii_unit u \<Longrightarrow> unit_of_byte (byte_of_unit u) = u"
  by (simp add: ascii_unit_def word_unat_eq_iff unat_byte_of_unit)

lemma ascii_byte_of_unit: "ascii_unit u \<Longrightarrow> ascii_byte (byte_of_unit u)"
  by (simp add: ascii_unit_def ascii_byte_def unat_byte_of_unit)

lemma byte_of_unit_of_byte [simp]: "byte_of_unit (unit_of_byte byte) = byte"
  by (simp add: byte_of_unit_def)

lemma UTF16EncodeCodePoint_beyond:
  assumes "beyond_ascii c"
  shows "UTF16EncodeCodePoint c \<noteq> [] \<and> list_all (\<lambda>u. \<not> ascii_unit u) (UTF16EncodeCodePoint c)"
proof (cases "c \<le> 0xFFFF")
  case True
  with assms show ?thesis
    by (simp add: UTF16EncodeCodePoint_def beyond_ascii_def ascii_unit_def unat_unit_of_nat)
next
  case False
  with assms have "(c - 0x10000) div 0x400 + 0xD800 < 65536"
    by (simp add: beyond_ascii_def scalar_value_def)
  moreover have "(c - 0x10000) mod 0x400 + 0xDC00 < 65536"
    by simp
  ultimately show ?thesis
    using False
    by (simp add: UTF16EncodeCodePoint_def ascii_unit_def unat_unit_of_nat del: of_nat_add)
qed

lemma unit_of_byte_eq_iff [simp]: "unit_of_byte a = unit_of_byte b \<longleftrightarrow> a = b"
  by (simp add: word_unat_eq_iff)

lemma CodePointsToString_beyond:
  "list_all beyond_ascii cs \<Longrightarrow>
     list_all (\<lambda>u. \<not> ascii_unit u) (CodePointsToString cs) \<and>
     (cs \<noteq> [] \<longrightarrow> CodePointsToString cs \<noteq> [])"
  by (induction cs) (simp_all add: UTF16EncodeCodePoint_beyond)

section \<open>Text that starts beyond ASCII\<close>

lemma not_prefix_foreign: "v \<noteq> [] \<Longrightarrow> u \<notin> set v \<Longrightarrow> \<not> prefix v (u # us)"
  by (cases v) auto

lemma sublist_skip_foreign:
  "set ns \<inter> set v = {} \<Longrightarrow> v \<noteq> [] \<Longrightarrow> sublist v (ns @ xs) \<longleftrightarrow> sublist v xs"
  by (induction ns) (auto simp: sublist_Cons_right not_prefix_foreign)

lemma sublist_skip_foreign_end:
  assumes "set ns \<inter> set v = {}" and "v \<noteq> []"
  shows "sublist v (xs @ ns) \<longleftrightarrow> sublist v xs"
proof -
  from assms have "sublist (rev v) (rev (xs @ ns)) \<longleftrightarrow> sublist (rev v) (rev xs)"
    using sublist_skip_foreign [of "rev ns" "rev v" "rev xs"] by simp
  then show ?thesis
    by (simp only: sublist_rev)
qed

lemma foreign_units:
  "list_all (\<lambda>u. \<not> ascii_unit u) ns \<Longrightarrow> list_all ascii_byte v \<Longrightarrow>
     set ns \<inter> set (map unit_of_byte v) = {}"
  by (auto simp: list_all_iff)

lemma foreign_byte:
  "\<not> ascii_byte byte \<Longrightarrow> list_all ascii_byte v \<Longrightarrow> set [byte] \<inter> set v = {}"
  by (auto simp: list_all_iff)

lemma sublist_in_noise:
  assumes "list_all (\<lambda>b. \<not> ascii_byte b) before" and "list_all (\<lambda>b. \<not> ascii_byte b) after"
    and "list_all ascii_byte v" and "v \<noteq> []"
  shows "sublist v (before @ bytes @ after) \<longleftrightarrow> sublist v bytes"
proof -
  from assms have "set before \<inter> set v = {}" and "set after \<inter> set v = {}"
    by (auto simp: list_all_iff)
  with assms(4) show ?thesis
    by (simp add: sublist_skip_foreign sublist_skip_foreign_end)
qed

lemma starts_beyond_append:
  "list_all (\<lambda>u. \<not> ascii_unit u) us \<Longrightarrow> us \<noteq> [] \<Longrightarrow> starts_beyond (us @ vs)"
  by (cases us) (simp_all add: starts_beyond_def)

lemma starts_beyond_no_ascii_prefix:
  "starts_beyond us \<Longrightarrow> ascii_byte a \<Longrightarrow> \<not> prefix (unit_of_byte a # v) us"
  by (cases us) (auto simp: starts_beyond_def)

lemma UTF16EncodeCodePoint_byte:
  "ascii_byte byte \<Longrightarrow> UTF16EncodeCodePoint (unat byte) = [unit_of_byte byte]"
  by (simp add: UTF16EncodeCodePoint_def ascii_byte_def unit_of_byte_def)

lemma decode_pending_starts_beyond:
  "decoder_ok dec \<Longrightarrow> pending dec \<Longrightarrow>
     starts_beyond (CodePointsToString (decode_from dec bytes))"
proof (induction dec bytes rule: decode_induct)
  case (Nil dec)
  then show ?case
    by (simp add: pending_def starts_beyond_def UTF16EncodeCodePoint_def ascii_unit_def)
next
  case (ascii dec byte rest)
  then show ?case
    by (simp add: decode_ascii starts_beyond_def UTF16EncodeCodePoint_def ascii_unit_def)
next
  case (beyond dec byte rest cs dec')
  then show ?case
    by (cases "cs = []") (simp_all add: starts_beyond_append CodePointsToString_beyond)
qed

lemma decode_beyond_starts_beyond:
  assumes "decoder_ok dec" and "0x80 \<le> unat byte"
  shows "starts_beyond (CodePointsToString (decode_from dec (byte # rest)))"
proof -
  from assms obtain cs dec' where step:
    "decode_from dec (byte # rest) = cs @ decode_from dec' rest" "decoder_ok dec'"
    "list_all beyond_ascii cs" "cs = [] \<Longrightarrow> pending dec'"
    by (rule decode_beyond_asciiE [where rest = rest]) blast
  show ?thesis
  proof (cases "cs = []")
    case True
    with step show ?thesis
      by (simp add: decode_pending_starts_beyond)
  next
    case False
    with step show ?thesis
      by (simp add: starts_beyond_append CodePointsToString_beyond)
  qed
qed

section \<open>Searching the decoded text for ASCII\<close>

lemma decoded_prefix_iff:
  "list_all ascii_byte v \<Longrightarrow>
     prefix (map unit_of_byte v) (CodePointsToString (decode_from fresh bytes)) \<longleftrightarrow>
     prefix v bytes"
proof (induction bytes arbitrary: v)
  case Nil
  then show ?case
    by (simp add: fresh_def)
next
  case (Cons byte rest)
  show ?case
  proof (cases v)
    case Nil
    then show ?thesis
      by simp
  next
    case (Cons a v')
    with Cons.prems have a: "ascii_byte a" and v': "list_all ascii_byte v'"
      by simp_all
    show ?thesis
    proof (cases "ascii_byte byte")
      case True
      with Cons.IH [OF v'] show ?thesis
        by (simp add: Cons decode_ascii UTF16EncodeCodePoint_byte ascii_byte_def [symmetric])
    next
      case False
      then have "starts_beyond (CodePointsToString (decode_from fresh (byte # rest)))"
        by (simp add: decode_beyond_starts_beyond ascii_byte_def)
      with a False show ?thesis
        by (auto simp: Cons dest: starts_beyond_no_ascii_prefix)
    qed
  qed
qed

lemma decode_from_Nil: "decode_from dec [] = (if pending dec then [0xFFFD] else [])"
  by (simp add: pending_def)

lemma replacement_if_pending [simp]:
  "list_all beyond_ascii (if pending dec then [0xFFFD] else [])"
  by simp

lemma sublist_skip_beyond:
  assumes "list_all beyond_ascii cs" and "list_all ascii_byte v" and "v \<noteq> []"
  shows "sublist (map unit_of_byte v) (CodePointsToString cs @ us) \<longleftrightarrow>
     sublist (map unit_of_byte v) us"
proof -
  from assms(1) have "list_all (\<lambda>u. \<not> ascii_unit u) (CodePointsToString cs)"
    by (simp add: CodePointsToString_beyond)
  from this assms(2) have "set (CodePointsToString cs) \<inter> set (map unit_of_byte v) = {}"
    by (rule foreign_units)
  with assms(3) show ?thesis
    by (simp add: sublist_skip_foreign)
qed

lemma sublist_skip_byte:
  assumes "\<not> ascii_byte byte" and "list_all ascii_byte v" and "v \<noteq> []"
  shows "sublist v (byte # rest) \<longleftrightarrow> sublist v rest"
  using sublist_skip_foreign [of "[byte]" v rest] foreign_byte [OF assms(1,2)] assms(3)
  by simp

lemma decoded_sublist_ascii:
  assumes v: "list_all ascii_byte v" "v \<noteq> []" and byte: "ascii_byte byte"
    and ok: "decoder_ok dec"
  shows "sublist (map unit_of_byte v) (CodePointsToString (decode_from dec (byte # rest))) \<longleftrightarrow>
     prefix v (byte # rest) \<or>
     sublist (map unit_of_byte v) (CodePointsToString (decode_from fresh rest))"
proof -
  let ?here = "CodePointsToString (decode_from fresh (byte # rest))"
  from byte have here: "?here = unit_of_byte byte # CodePointsToString (decode_from fresh rest)"
    by (simp add: decode_ascii UTF16EncodeCodePoint_byte ascii_byte_def [symmetric])
  from byte ok have "CodePointsToString (decode_from dec (byte # rest)) =
      CodePointsToString (if pending dec then [0xFFFD] else []) @ ?here"
    by (simp add: decode_ascii ascii_byte_def [symmetric])
  then have "sublist (map unit_of_byte v) (CodePointsToString (decode_from dec (byte # rest)))
      \<longleftrightarrow> sublist (map unit_of_byte v) ?here"
    by (simp only: sublist_skip_beyond [OF replacement_if_pending v])
  also have "\<dots> \<longleftrightarrow> prefix (map unit_of_byte v) ?here \<or>
      sublist (map unit_of_byte v) (CodePointsToString (decode_from fresh rest))"
    by (simp add: here sublist_Cons_right)
  finally show ?thesis
    using v by (simp only: decoded_prefix_iff)
qed

lemma decoded_sublist_iff:
  assumes v: "list_all ascii_byte v" "v \<noteq> []"
  shows "decoder_ok dec \<Longrightarrow>
     sublist (map unit_of_byte v) (CodePointsToString (decode_from dec bytes)) \<longleftrightarrow>
     sublist v bytes"
proof (induction dec bytes rule: decode_induct)
  case (Nil dec)
  have "sublist (map unit_of_byte v)
      (CodePointsToString (if pending dec then [0xFFFD] else []) @ []) \<longleftrightarrow>
    sublist (map unit_of_byte v) []"
    by (rule sublist_skip_beyond [OF replacement_if_pending v])
  with v show ?case
    by (simp add: decode_from_Nil del: decode_from.simps(1))
next
  case (ascii dec byte rest)
  with v show ?case
    by (simp add: decoded_sublist_ascii ascii_byte_def sublist_Cons_right)
next
  case (beyond dec byte rest cs dec')
  with v show ?case
    by (simp add: sublist_skip_beyond sublist_skip_byte ascii_byte_def)
qed

lemma sublist_decoded_iff:
  "list_all ascii_byte v \<Longrightarrow>
     sublist (map unit_of_byte v) (utf8_decode bytes) \<longleftrightarrow> sublist v bytes"
  by (cases "v = []") (simp_all add: utf8_decode_def decoded_sublist_iff)

section \<open>Well-formed strings\<close>

lemma well_formed_plain:
  "\<not> high_surrogate u \<Longrightarrow> \<not> low_surrogate u \<Longrightarrow>
     well_formed_utf16 (u # us) = well_formed_utf16 us"
  by (cases us) simp_all

lemma well_formed_UTF16EncodeCodePoint:
  assumes "scalar_value c"
  shows "well_formed_utf16 (UTF16EncodeCodePoint c @ us) = well_formed_utf16 us"
proof (cases "c \<le> 0xFFFF")
  case True
  with assms have "\<not> high_surrogate (of_nat c)" and "\<not> low_surrogate (of_nat c)"
    by (auto simp: scalar_value_def high_surrogate_def low_surrogate_def unat_unit_of_nat)
  with True show ?thesis
    by (simp add: UTF16EncodeCodePoint_def well_formed_plain)
next
  case False
  with assms have "(c - 0x10000) div 0x400 + 0xD800 \<le> 0xDBFF"
    by (simp add: scalar_value_def)
  moreover have "(c - 0x10000) mod 0x400 + 0xDC00 \<le> 0xDFFF"
    by simp
  ultimately show ?thesis
    using False
    by (simp add: UTF16EncodeCodePoint_def high_surrogate_def low_surrogate_def
        unat_unit_of_nat del: of_nat_add)
qed

lemma well_formed_CodePointsToString:
  "list_all scalar_value cs \<Longrightarrow> well_formed_utf16 (CodePointsToString cs)"
  by (induction cs) (simp_all add: well_formed_UTF16EncodeCodePoint)

lemma utf8_decode_well_formed: "well_formed_utf16 (utf8_decode bytes)"
  by (simp add: utf8_decode_def well_formed_CodePointsToString
      decode_from_scalar)

lemma utf8_decode_length: "length (utf8_decode bytes) \<le> length bytes"
  using decode_from_length [of fresh bytes]
  by (simp add: utf8_decode_def)

section \<open>ASCII\<close>

lemma decode_from_ascii:
  "list_all ascii_byte bytes \<Longrightarrow> decode_from fresh bytes = map unat bytes"
  by (induction bytes) (simp_all add: decode_ascii ascii_byte_def)

lemma utf8_decode_ascii:
  "list_all ascii_byte bytes \<Longrightarrow> utf8_decode bytes = map unit_of_byte bytes"
  by (induction bytes)
    (simp_all add: utf8_decode_def decode_from_ascii
      UTF16EncodeCodePoint_byte)

lemma utf8_decode_keeps_bom:
  "utf8_decode (0xEF # 0xBB # 0xBF # bytes) = 0xFEFF # utf8_decode bytes"
proof -
  let ?d1 = "\<lparr>utf8_code_point = 0xF, utf8_bytes_seen = 0, utf8_bytes_needed = 2,
      utf8_lower_boundary = 0x80, utf8_upper_boundary = 0xBF\<rparr>"
  let ?d2 = "\<lparr>utf8_code_point = 0x3FB, utf8_bytes_seen = 1, utf8_bytes_needed = 2,
      utf8_lower_boundary = 0x80, utf8_upper_boundary = 0xBF\<rparr>"
  have "handler fresh 0xEF = (Continue, ?d1, False)"
    and "handler ?d1 0xBB = (Continue, ?d2, False)"
    and "handler ?d2 0xBF = (Item 0xFEFF, fresh, False)"
    by (simp_all add: handler_arith fresh_def)
  then have "decode_from fresh (0xEF # 0xBB # 0xBF # bytes) = 0xFEFF # decode_from fresh bytes"
    by (simp add: decode_from.simps(2))
  then show ?thesis
    by (simp add: utf8_decode_def UTF16EncodeCodePoint_def)
qed

section \<open>Properties of the decoded text\<close>

text \<open>
  C32 (equivalence).  Searching the decoded text for an ASCII string is
  searching the bytes of the file: \<open>includes\<close> finds the string in the text
  exactly when its bytes occur in the input, whatever else the input holds,
  well formed or not.  No malformed sequence and no character beyond ASCII
  decodes to ASCII, and ASCII bytes decode to themselves.
\<close>

theorem includes_decoded_iff_bytes:
  "list_all ascii_byte v \<Longrightarrow>
     includes_str (utf8_decode bytes) (map unit_of_byte v) \<longleftrightarrow> sublist v bytes"
  by (simp add: includes_iff_sublist sublist_decoded_iff)

theorem includes_decoded_iff_bytes_witness:
  "list_all ascii_byte [0x54, 0x69] \<and>
   includes_str (utf8_decode [0xC3, 0x54, 0x69, 0xA9]) (map unit_of_byte [0x54, 0x69]) \<and>
   sublist [0x54, 0x69] [0xC3, 0x54, 0x69, 0xA9 :: byte]"
proof -
  have ascii: "list_all ascii_byte [0x54, 0x69]"
    by (simp add: ascii_byte_def)
  have bytes: "sublist [0x54, 0x69] [0xC3, 0x54, 0x69, 0xA9 :: byte]"
    by (simp add: sublist_Cons_right)
  from includes_decoded_iff_bytes [OF ascii, where bytes = "[0xC3, 0x54, 0x69, 0xA9]"]
    ascii bytes
  show ?thesis
    by simp
qed

end
