(* ===== verification/UTF8_Codec.thy ===== *)
theory UTF8_Codec
  imports UTF8_Text
begin

text \<open>
  The decoder against the encoder.

  \<^item> \<open>utf8_encode\<close> is the UTF-8 encoder of the Encoding Standard, the reference
    the decoder is checked against; \<open>utf8_encode_code_point\<close> writes one code
    point and \<open>continuation_byte\<close> is one of its trailing bytes.
  \<^item> \<open>reads dec bytes c\<close> says that the handler, started in the state \<open>dec\<close>,
    takes exactly the bytes \<open>bytes\<close> to return the code point \<open>c\<close>, without
    an error on the way.
  \<^item> \<open>decode_strict\<close> is the decoder with the error mode \<^emph>\<open>fatal\<close> of the same
    standard: the same handler, but the first error ends the decoding with
    \<open>None\<close>.  It is what a reader does that refuses a file which is not valid
    text.  The script does not decode like this; the theory \<open>Byte_World\<close>
    compares the two.

  The lemmas show that the handler reads a sequence of bytes as a code point
  exactly when the code point is a scalar value and the bytes are its encoding
  (\<open>reads_iff_encoding\<close>): no overlong form, no surrogate and nothing beyond
  U+10FFFF is accepted.  From this follow the round trips: decoding inverts
  encoding, for both decoders; the strict decoder succeeds exactly on the
  encodings of sequences of scalar values (\<open>decode_strict_Some_iff\<close>), and
  where it succeeds the two decoders agree.
\<close>

unbundle bit_operations_syntax

section \<open>Definitions\<close>

definition continuation_byte :: "nat \<Rightarrow> nat \<Rightarrow> byte" where
  "continuation_byte c count = of_nat (0x80 + c div 64 ^ count mod 64)"

definition utf8_encode_code_point :: "nat \<Rightarrow> byte list" where
  "utf8_encode_code_point c =
     (if c \<le> 0x7F then [of_nat c]
      else if c \<le> 0x7FF then [of_nat (c div 64 + 0xC0), continuation_byte c 0]
      else if c \<le> 0xFFFF then
        [of_nat (c div 64 ^ 2 + 0xE0), continuation_byte c 1, continuation_byte c 0]
      else [of_nat (c div 64 ^ 3 + 0xF0), continuation_byte c 2, continuation_byte c 1,
            continuation_byte c 0])"

definition utf8_encode :: "nat list \<Rightarrow> byte list" where
  "utf8_encode text = concat (map utf8_encode_code_point text)"

fun reads :: "utf8_decoder \<Rightarrow> byte list \<Rightarrow> nat \<Rightarrow> bool" where
  "reads dec [] c = False"
| "reads dec (byte # bytes) c =
     (case handler dec byte of
        (Continue, dec', restored) \<Rightarrow> reads dec' bytes c
      | (Item c', dec', restored) \<Rightarrow> bytes = [] \<and> c' = c
      | (Decode_Error, dec', restored) \<Rightarrow> False)"

fun decode_strict_from :: "utf8_decoder \<Rightarrow> byte list \<Rightarrow> nat list option" where
  "decode_strict_from dec [] = (if utf8_bytes_needed dec \<noteq> 0 then None else Some [])"
| "decode_strict_from dec (byte # rest) =
     (case handler dec byte of
        (Continue, dec', restored) \<Rightarrow> decode_strict_from dec' rest
      | (Item c, dec', restored) \<Rightarrow> map_option ((#) c) (decode_strict_from dec' rest)
      | (Decode_Error, dec', restored) \<Rightarrow> None)"

definition decode_strict :: "byte list \<Rightarrow> nat list option" where
  "decode_strict bytes = decode_strict_from fresh bytes"

section \<open>Strict and lenient decoding\<close>

lemma decode_strict_from_agrees:
  "decoder_ok dec \<Longrightarrow> decode_strict_from dec bytes = Some cps \<Longrightarrow> decode_from dec bytes = cps"
proof (induction bytes arbitrary: dec cps)
  case Nil
  then show ?case
    by (simp split: if_splits)
next
  case (Cons byte rest)
  from Cons.prems(1) show ?case
  proof (cases rule: handler_cases [where byte = byte])
    case (item c)
    with Cons.prems Cons.IH [OF decoder_ok_fresh] show ?thesis
      by (auto simp: decode_from.simps(2))
  next
    case (continue dec')
    with Cons.prems Cons.IH [of dec'] show ?thesis
      by (simp add: decode_from.simps(2))
  next
    case (error restored)
    with Cons.prems show ?thesis
      by simp
  qed
qed

lemma reads_decode:
  "decoder_ok dec \<Longrightarrow> reads dec bs c \<Longrightarrow>
     decode_from dec (bs @ rest) = c # decode_from fresh rest"
proof (induction bs arbitrary: dec)
  case Nil
  then show ?case
    by simp
next
  case (Cons byte bs)
  from Cons.prems(1) show ?case
  proof (cases rule: handler_cases [where byte = byte])
    case (item c')
    with Cons.prems show ?thesis
      by (simp add: decode_from.simps(2))
  next
    case (continue dec')
    with Cons.prems Cons.IH [of dec'] show ?thesis
      by (simp add: decode_from.simps(2))
  next
    case (error restored)
    with Cons.prems show ?thesis
      by simp
  qed
qed

lemma reads_strict:
  "decoder_ok dec \<Longrightarrow> reads dec bs c \<Longrightarrow>
     decode_strict_from dec (bs @ rest) = map_option ((#) c) (decode_strict_from fresh rest)"
proof (induction bs arbitrary: dec)
  case Nil
  then show ?case
    by simp
next
  case (Cons byte bs)
  from Cons.prems(1) show ?case
  proof (cases rule: handler_cases [where byte = byte])
    case (item c')
    with Cons.prems show ?thesis
      by simp
  next
    case (continue dec')
    with Cons.prems Cons.IH [of dec'] show ?thesis
      by simp
  next
    case (error restored)
    with Cons.prems show ?thesis
      by simp
  qed
qed

lemma strict_split:
  "decoder_ok dec \<Longrightarrow> decode_strict_from dec bytes = Some cps \<Longrightarrow> bytes \<noteq> [] \<or> pending dec \<Longrightarrow>
     \<exists>bs rest c cps'. bytes = bs @ rest \<and> bs \<noteq> [] \<and> reads dec bs c \<and> scalar_value c \<and>
       cps = c # cps' \<and> decode_strict_from fresh rest = Some cps'"
proof (induction bytes arbitrary: dec)
  case Nil
  then show ?case
    by (simp add: pending_def)
next
  case (Cons byte rest)
  from Cons.prems(1) show ?case
  proof (cases rule: handler_cases [where byte = byte])
    case (item c)
    with Cons.prems(2) obtain cps' where "decode_strict_from fresh rest = Some cps'"
      and "cps = c # cps'"
      by auto
    with item show ?thesis
      by (intro exI [of _ "[byte]"] exI [of _ rest] exI [of _ c] exI [of _ cps']) simp
  next
    case (continue dec')
    with Cons.prems(2) have "decode_strict_from dec' rest = Some cps"
      by simp
    with continue obtain bs rest' c cps' where "rest = bs @ rest'" "reads dec' bs c"
      "scalar_value c" "cps = c # cps'" "decode_strict_from fresh rest' = Some cps'"
      using Cons.IH [of dec'] by blast
    with continue show ?thesis
      by (intro exI [of _ "byte # bs"] exI [of _ rest'] exI [of _ c] exI [of _ cps']) simp
  next
    case (error restored)
    with Cons.prems(2) show ?thesis
      by simp
  qed
qed

section \<open>Reading one code point\<close>

lemma handler_lead_explicit:
  "0xC2 \<le> unat byte \<Longrightarrow> unat byte \<le> 0xDF \<Longrightarrow>
     handler fresh byte =
       (Continue, \<lparr>utf8_code_point = unat byte - 0xC0, utf8_bytes_seen = 0,
          utf8_bytes_needed = 1, utf8_lower_boundary = 0x80, utf8_upper_boundary = 0xBF\<rparr>, False)"
  "0xE0 \<le> unat byte \<Longrightarrow> unat byte \<le> 0xEF \<Longrightarrow>
     handler fresh byte =
       (Continue, \<lparr>utf8_code_point = unat byte - 0xE0, utf8_bytes_seen = 0,
          utf8_bytes_needed = 2,
          utf8_lower_boundary = (if unat byte = 0xE0 then 0xA0 else 0x80),
          utf8_upper_boundary = (if unat byte = 0xED then 0x9F else 0xBF)\<rparr>, False)"
  "0xF0 \<le> unat byte \<Longrightarrow> unat byte \<le> 0xF4 \<Longrightarrow>
     handler fresh byte =
       (Continue, \<lparr>utf8_code_point = unat byte - 0xF0, utf8_bytes_seen = 0,
          utf8_bytes_needed = 3,
          utf8_lower_boundary = (if unat byte = 0xF0 then 0x90 else 0x80),
          utf8_upper_boundary = (if unat byte = 0xF4 then 0x8F else 0xBF)\<rparr>, False)"
  by (simp_all add: handler_arith fresh_def)

lemma handler_continuation_explicit:
  assumes "n \<noteq> 0" and "lo \<le> unat byte" and "unat byte \<le> hi" and "0x80 \<le> lo" and "hi \<le> 0xBF"
  shows "handler \<lparr>utf8_code_point = c, utf8_bytes_seen = s, utf8_bytes_needed = n,
        utf8_lower_boundary = lo, utf8_upper_boundary = hi\<rparr> byte =
     (if Suc s \<noteq> n then
        (Continue, \<lparr>utf8_code_point = c * 64 + (unat byte - 0x80), utf8_bytes_seen = Suc s,
           utf8_bytes_needed = n, utf8_lower_boundary = 0x80, utf8_upper_boundary = 0xBF\<rparr>,
         False)
      else (Item (c * 64 + (unat byte - 0x80)), fresh, False))"
  using assms by (simp add: handler_arith mask_lead fresh_def)

lemma reads_fresh_Cons:
  "reads fresh (b # bs) c \<longleftrightarrow>
     (if unat b < 0x80 then bs = [] \<and> c = unat b
      else if 0xC2 \<le> unat b \<and> unat b \<le> 0xDF then
        reads \<lparr>utf8_code_point = unat b - 0xC0, utf8_bytes_seen = 0, utf8_bytes_needed = 1,
          utf8_lower_boundary = 0x80, utf8_upper_boundary = 0xBF\<rparr> bs c
      else if 0xE0 \<le> unat b \<and> unat b \<le> 0xEF then
        reads \<lparr>utf8_code_point = unat b - 0xE0, utf8_bytes_seen = 0, utf8_bytes_needed = 2,
          utf8_lower_boundary = (if unat b = 0xE0 then 0xA0 else 0x80),
          utf8_upper_boundary = (if unat b = 0xED then 0x9F else 0xBF)\<rparr> bs c
      else if 0xF0 \<le> unat b \<and> unat b \<le> 0xF4 then
        reads \<lparr>utf8_code_point = unat b - 0xF0, utf8_bytes_seen = 0, utf8_bytes_needed = 3,
          utf8_lower_boundary = (if unat b = 0xF0 then 0x90 else 0x80),
          utf8_upper_boundary = (if unat b = 0xF4 then 0x8F else 0xBF)\<rparr> bs c
      else False)"
proof -
  consider "unat b < 0x80" | "0xC2 \<le> unat b" "unat b \<le> 0xDF" | "0xE0 \<le> unat b" "unat b \<le> 0xEF"
    | "0xF0 \<le> unat b" "unat b \<le> 0xF4"
    | "0x80 \<le> unat b" "\<not> (0xC2 \<le> unat b \<and> unat b \<le> 0xF4)"
    by atomize_elim linarith
  then show ?thesis
  proof cases
    case 1
    then show ?thesis
      by (auto simp: handler_ascii_fresh)
  next
    case 5
    then have "handler fresh b = (Decode_Error, fresh, False)"
      by (rule handler_invalid_lead)
    with 5 show ?thesis
      by auto
  qed (simp_all add: handler_lead_explicit)
qed

lemma reads_continuation_Cons:
  assumes "n \<noteq> 0" and "0x80 \<le> lo" and "hi \<le> 0xBF"
  shows "reads \<lparr>utf8_code_point = a, utf8_bytes_seen = s, utf8_bytes_needed = n,
        utf8_lower_boundary = lo, utf8_upper_boundary = hi\<rparr> (b # bs) c \<longleftrightarrow>
     lo \<le> unat b \<and> unat b \<le> hi \<and>
     (if Suc s \<noteq> n then
        reads \<lparr>utf8_code_point = a * 64 + (unat b - 0x80), utf8_bytes_seen = Suc s,
          utf8_bytes_needed = n, utf8_lower_boundary = 0x80, utf8_upper_boundary = 0xBF\<rparr> bs c
      else bs = [] \<and> c = a * 64 + (unat b - 0x80))"
proof (cases "lo \<le> unat b \<and> unat b \<le> hi")
  case True
  with assms show ?thesis
    by (auto simp: handler_continuation_explicit)
next
  case False
  with assms(1) show ?thesis
    by (auto simp: handler_out_of_range pending_def in_range_def)
qed

declare reads.simps(2) [simp del]

lemmas reads_Cons = reads_fresh_Cons reads_continuation_Cons

lemma reads_ascii:
  "unat b < 0x80 \<Longrightarrow> reads fresh (b # bs) c \<longleftrightarrow> bs = [] \<and> c = unat b"
  by (simp add: reads_fresh_Cons)

lemma reads_two:
  assumes "0xC2 \<le> unat b1" and "unat b1 \<le> 0xDF"
  shows "reads fresh (b1 # bs) c \<longleftrightarrow>
     (\<exists>b2. bs = [b2] \<and> 0x80 \<le> unat b2 \<and> unat b2 \<le> 0xBF \<and>
        c = (unat b1 - 0xC0) * 64 + (unat b2 - 0x80))"
  using assms by (cases bs) (auto simp: reads_Cons)

lemma reads_three:
  assumes "0xE0 \<le> unat b1" and "unat b1 \<le> 0xEF"
  shows "reads fresh (b1 # bs) c \<longleftrightarrow>
     (\<exists>b2 b3. bs = [b2, b3] \<and>
        (if unat b1 = 0xE0 then 0xA0 else 0x80) \<le> unat b2 \<and>
        unat b2 \<le> (if unat b1 = 0xED then 0x9F else 0xBF) \<and>
        0x80 \<le> unat b3 \<and> unat b3 \<le> 0xBF \<and>
        c = ((unat b1 - 0xE0) * 64 + (unat b2 - 0x80)) * 64 + (unat b3 - 0x80))"
proof (cases bs)
  case Nil
  with assms show ?thesis
    by (simp add: reads_Cons)
next
  case (Cons b2 bs2)
  with assms show ?thesis
    by (cases bs2) (auto simp: reads_Cons)
qed

lemma reads_four:
  assumes "0xF0 \<le> unat b1" and "unat b1 \<le> 0xF4"
  shows "reads fresh (b1 # bs) c \<longleftrightarrow>
     (\<exists>b2 b3 b4. bs = [b2, b3, b4] \<and>
        (if unat b1 = 0xF0 then 0x90 else 0x80) \<le> unat b2 \<and>
        unat b2 \<le> (if unat b1 = 0xF4 then 0x8F else 0xBF) \<and>
        0x80 \<le> unat b3 \<and> unat b3 \<le> 0xBF \<and> 0x80 \<le> unat b4 \<and> unat b4 \<le> 0xBF \<and>
        c = (((unat b1 - 0xF0) * 64 + (unat b2 - 0x80)) * 64 + (unat b3 - 0x80)) * 64 +
          (unat b4 - 0x80))"
proof (cases bs)
  case Nil
  with assms show ?thesis
    by (simp add: reads_Cons)
next
  case (Cons b2 bs2)
  show ?thesis
  proof (cases bs2)
    case Nil
    with Cons assms show ?thesis
      by (simp add: reads_Cons)
  next
    case (Cons b3 bs3)
    with \<open>bs = b2 # bs2\<close> assms show ?thesis
      by (cases bs3) (auto simp: reads_Cons)
  qed
qed

section \<open>The encoding of what was read\<close>

lemma byte_eqI: "unat (b :: byte) = n \<Longrightarrow> of_nat n = b"
  by auto

lemma digit64:
  fixes x l :: nat
  shows "l < 64 \<Longrightarrow> (x * 64 + l) div 64 = x" and "l < 64 \<Longrightarrow> (x * 64 + l) mod 64 = l"
  by simp_all

lemma encode_ascii: "unat b < 0x80 \<Longrightarrow> utf8_encode_code_point (unat b) = [b]"
  by (simp add: utf8_encode_code_point_def)

lemma encode_two:
  assumes "0xC2 \<le> unat b1" and "unat b1 \<le> 0xDF" and "0x80 \<le> unat b2" and "unat b2 \<le> 0xBF"
  shows "utf8_encode_code_point ((unat b1 - 0xC0) * 64 + (unat b2 - 0x80)) = [b1, b2]"
    and "scalar_value ((unat b1 - 0xC0) * 64 + (unat b2 - 0x80))"
proof -
  define q l where "q = unat b1 - 0xC0" and "l = unat b2 - 0x80"
  with assms have q: "2 \<le> q" "q \<le> 31" and l: "l < 64"
    and b: "unat b1 = q + 0xC0" "unat b2 = 0x80 + l"
    by simp_all
  then have "of_nat (q + 0xC0) = b1" and "of_nat (0x80 + l) = b2"
    by (simp_all only: byte_eqI)
  with q l show "utf8_encode_code_point ((unat b1 - 0xC0) * 64 + (unat b2 - 0x80)) = [b1, b2]"
    unfolding q_def [symmetric] l_def [symmetric]
    by (simp add: utf8_encode_code_point_def continuation_byte_def del: of_nat_add)
  from q l show "scalar_value ((unat b1 - 0xC0) * 64 + (unat b2 - 0x80))"
    unfolding q_def [symmetric] l_def [symmetric] by (simp add: scalar_value_def)
qed

lemma digits_three:
  fixes q m l :: nat
  assumes "m < 64" and "l < 64"
  shows "((q * 64 + m) * 64 + l) div 4096 = q" and "((q * 64 + m) * 64 + l) div 64 mod 64 = m"
    and "((q * 64 + m) * 64 + l) mod 64 = l"
  using assms div_mult2_eq [of "(q * 64 + m) * 64 + l" 64 64]
  by (simp_all only: digit64) simp

lemma digits_four:
  fixes p q m l :: nat
  assumes "q < 64" and "m < 64" and "l < 64"
  shows "(((p * 64 + q) * 64 + m) * 64 + l) div 262144 = p"
    and "(((p * 64 + q) * 64 + m) * 64 + l) div 4096 mod 64 = q"
    and "(((p * 64 + q) * 64 + m) * 64 + l) div 64 mod 64 = m"
    and "(((p * 64 + q) * 64 + m) * 64 + l) mod 64 = l"
proof -
  let ?c = "((p * 64 + q) * 64 + m) * 64 + l"
  from assms have "?c div 64 = (p * 64 + q) * 64 + m"
    by (simp only: digit64)
  with assms digits_three [of q m p] show "?c div 262144 = p" and "?c div 4096 mod 64 = q"
    using div_mult2_eq [of ?c 64 4096] div_mult2_eq [of ?c 64 64] by simp_all
  from assms show "?c div 64 mod 64 = m" and "?c mod 64 = l"
    by (simp_all only: digit64)
qed

lemma encode_digits_three:
  assumes "q \<le> 15" and "m < 64" and "l < 64" and "q = 0 \<Longrightarrow> 32 \<le> m" and "q = 13 \<Longrightarrow> m \<le> 31"
  shows "utf8_encode_code_point ((q * 64 + m) * 64 + l) =
      [of_nat (q + 0xE0), of_nat (0x80 + m), of_nat (0x80 + l)]"
    and "scalar_value ((q * 64 + m) * 64 + l)"
proof -
  let ?c = "(q * 64 + m) * 64 + l"
  from assms(2-4) have "0x800 \<le> ?c"
    by (cases "q = 0") simp_all
  moreover from assms(1-3) have "?c \<le> 0xFFFF"
    by simp
  moreover from assms(1-3,5) have "?c < 0xD800 \<or> 0xDFFF < ?c"
    by (cases q "13 :: nat" rule: linorder_cases) simp_all
  ultimately have range: "0x800 \<le> ?c" "?c \<le> 0xFFFF" "?c < 0xD800 \<or> 0xDFFF < ?c"
    by simp_all
  with digits_three [OF assms(2,3), of q]
  show "utf8_encode_code_point ?c = [of_nat (q + 0xE0), of_nat (0x80 + m), of_nat (0x80 + l)]"
    by (simp add: utf8_encode_code_point_def continuation_byte_def del: of_nat_add)
  from range show "scalar_value ?c"
    by (auto simp: scalar_value_def)
qed

lemma encode_digits_four:
  assumes "p \<le> 4" and "q < 64" and "m < 64" and "l < 64"
    and "p = 0 \<Longrightarrow> 16 \<le> q" and "p = 4 \<Longrightarrow> q \<le> 15"
  shows "utf8_encode_code_point (((p * 64 + q) * 64 + m) * 64 + l) =
      [of_nat (p + 0xF0), of_nat (0x80 + q), of_nat (0x80 + m), of_nat (0x80 + l)]"
    and "scalar_value (((p * 64 + q) * 64 + m) * 64 + l)"
proof -
  let ?c = "((p * 64 + q) * 64 + m) * 64 + l"
  from assms(2-5) have "0x10000 \<le> ?c"
    by (cases "p = 0") simp_all
  moreover from assms(1-4,6) have "?c \<le> 0x10FFFF"
    by (cases "p = 4") simp_all
  ultimately have range: "0x10000 \<le> ?c" "?c \<le> 0x10FFFF"
    by simp_all
  with digits_four [OF assms(2-4), of p]
  show "utf8_encode_code_point ?c =
      [of_nat (p + 0xF0), of_nat (0x80 + q), of_nat (0x80 + m), of_nat (0x80 + l)]"
    by (simp add: utf8_encode_code_point_def continuation_byte_def del: of_nat_add)
  from range show "scalar_value ?c"
    by (simp add: scalar_value_def)
qed

lemma encode_three:
  assumes "0xE0 \<le> unat b1" and "unat b1 \<le> 0xEF"
    and "(if unat b1 = 0xE0 then 0xA0 else 0x80) \<le> unat b2"
    and "unat b2 \<le> (if unat b1 = 0xED then 0x9F else 0xBF)"
    and "0x80 \<le> unat b3" and "unat b3 \<le> 0xBF"
  shows "utf8_encode_code_point
      (((unat b1 - 0xE0) * 64 + (unat b2 - 0x80)) * 64 + (unat b3 - 0x80)) = [b1, b2, b3]"
    and "scalar_value (((unat b1 - 0xE0) * 64 + (unat b2 - 0x80)) * 64 + (unat b3 - 0x80))"
proof -
  define q m l where "q = unat b1 - 0xE0" and "m = unat b2 - 0x80" and "l = unat b3 - 0x80"
  from assms have digits: "q \<le> 15" "m < 64" "l < 64" "q = 0 \<Longrightarrow> 32 \<le> m" "q = 13 \<Longrightarrow> m \<le> 31"
    and "unat b1 = q + 0xE0" "unat b2 = 0x80 + m" "unat b3 = 0x80 + l"
    by (auto simp: q_def m_def l_def split: if_splits)
  then have "of_nat (q + 0xE0) = b1" "of_nat (0x80 + m) = b2" "of_nat (0x80 + l) = b3"
    by (simp_all only: byte_eqI)
  with encode_digits_three [OF digits]
  show "utf8_encode_code_point
      (((unat b1 - 0xE0) * 64 + (unat b2 - 0x80)) * 64 + (unat b3 - 0x80)) = [b1, b2, b3]"
    and "scalar_value (((unat b1 - 0xE0) * 64 + (unat b2 - 0x80)) * 64 + (unat b3 - 0x80))"
    by (simp_all only: q_def m_def l_def)
qed

lemma encode_four:
  assumes "0xF0 \<le> unat b1" and "unat b1 \<le> 0xF4"
    and "(if unat b1 = 0xF0 then 0x90 else 0x80) \<le> unat b2"
    and "unat b2 \<le> (if unat b1 = 0xF4 then 0x8F else 0xBF)"
    and "0x80 \<le> unat b3" and "unat b3 \<le> 0xBF" and "0x80 \<le> unat b4" and "unat b4 \<le> 0xBF"
  shows "utf8_encode_code_point
      ((((unat b1 - 0xF0) * 64 + (unat b2 - 0x80)) * 64 + (unat b3 - 0x80)) * 64 +
        (unat b4 - 0x80)) = [b1, b2, b3, b4]"
    and "scalar_value ((((unat b1 - 0xF0) * 64 + (unat b2 - 0x80)) * 64 + (unat b3 - 0x80)) * 64 +
        (unat b4 - 0x80))"
proof -
  define p q m l where "p = unat b1 - 0xF0" and "q = unat b2 - 0x80" and "m = unat b3 - 0x80"
    and "l = unat b4 - 0x80"
  from assms have digits: "p \<le> 4" "q < 64" "m < 64" "l < 64" "p = 0 \<Longrightarrow> 16 \<le> q"
      "p = 4 \<Longrightarrow> q \<le> 15"
    and "unat b1 = p + 0xF0" "unat b2 = 0x80 + q" "unat b3 = 0x80 + m" "unat b4 = 0x80 + l"
    by (auto simp: p_def q_def m_def l_def split: if_splits)
  then have "of_nat (p + 0xF0) = b1" "of_nat (0x80 + q) = b2" "of_nat (0x80 + m) = b3"
    "of_nat (0x80 + l) = b4"
    by (simp_all only: byte_eqI)
  with encode_digits_four [OF digits]
  show "utf8_encode_code_point
      ((((unat b1 - 0xF0) * 64 + (unat b2 - 0x80)) * 64 + (unat b3 - 0x80)) * 64 +
        (unat b4 - 0x80)) = [b1, b2, b3, b4]"
    and "scalar_value ((((unat b1 - 0xF0) * 64 + (unat b2 - 0x80)) * 64 + (unat b3 - 0x80)) * 64 +
        (unat b4 - 0x80))"
    by (simp_all only: p_def q_def m_def l_def)
qed

section \<open>Reading what the encoder wrote\<close>

lemma unat_continuation_byte: "unat (continuation_byte c count) = 0x80 + c div 64 ^ count mod 64"
  unfolding continuation_byte_def
  by (rule unat_byte_of_nat) (simp add: less_trans [OF add_strict_left_mono [OF mod_less_divisor]])

lemma reads_encoded_two:
  assumes "0x80 \<le> c" and "c \<le> 0x7FF"
  shows "reads fresh (utf8_encode_code_point c) c"
proof -
  define q l where "q = c div 64" and "l = c mod 64"
  then have c: "c = q * 64 + l" and l: "l < 64"
    by simp_all
  with assms have q: "2 \<le> q" "q \<le> 31"
    by simp_all
  then have "unat (of_nat (q + 0xC0) :: byte) = q + 0xC0"
    by (intro unat_byte_of_nat) simp
  moreover have "unat (continuation_byte c 0) = 0x80 + l"
    by (simp add: unat_continuation_byte l_def)
  ultimately show ?thesis
    using assms q l c
    by (simp add: utf8_encode_code_point_def reads_two q_def [symmetric] del: of_nat_add)
qed

lemma reads_encoded_three:
  assumes "0x800 \<le> c" and "c \<le> 0xFFFF" and "scalar_value c"
  shows "reads fresh (utf8_encode_code_point c) c"
proof -
  define q m l where "q = c div 4096" and "m = c div 64 mod 64" and "l = c mod 64"
  define b1 :: byte where "b1 = of_nat (q + 0xE0)"
  define b2 b3 where "b2 = continuation_byte c 1" and "b3 = continuation_byte c 0"
  have "c div 64 = q * 64 + m" and "c = c div 64 * 64 + l"
    using div_mult2_eq [of c 64 64] by (simp_all add: q_def m_def l_def)
  then have c: "c = q * 4096 + m * 64 + l"
    by (simp add: add_mult_distrib)
  have small: "m < 64" "l < 64"
    by (simp_all add: m_def l_def)
  from assms(3) have "c < 0xD800 \<or> 0xDFFF < c"
    by (auto simp: scalar_value_def)
  with assms(1,2) c small have q: "q \<le> 15" and "q = 0 \<Longrightarrow> 32 \<le> m"
    and "q = 13 \<Longrightarrow> m \<le> 31"
    by linarith+
  with small have lo: "(if q = 0 then 0xA0 else 0x80) \<le> 0x80 + m"
    and hi: "0x80 + m \<le> (if q = 13 then 0x9F else 0xBF)"
    by simp_all
  from q have "unat b1 = q + 0xE0"
    unfolding b1_def by (intro unat_byte_of_nat) simp
  moreover have "unat b2 = 0x80 + m" and "unat b3 = 0x80 + l"
    by (simp_all add: b2_def b3_def unat_continuation_byte m_def l_def)
  ultimately have "reads fresh [b1, b2, b3] (q * 4096 + m * 64 + l)"
    using q lo hi small by (simp add: reads_three)
  then show ?thesis
    unfolding c [symmetric] b1_def b2_def b3_def
    using assms by (simp add: utf8_encode_code_point_def q_def)
qed

lemma reads_encoded_four:
  assumes "0x10000 \<le> c" and "c \<le> 0x10FFFF"
  shows "reads fresh (utf8_encode_code_point c) c"
proof -
  define p q m l where "p = c div 262144" and "q = c div 4096 mod 64"
    and "m = c div 64 mod 64" and "l = c mod 64"
  define b1 :: byte where "b1 = of_nat (p + 0xF0)"
  define b2 b3 b4 where "b2 = continuation_byte c 2" and "b3 = continuation_byte c 1"
    and "b4 = continuation_byte c 0"
  have "c div 4096 = p * 64 + q" and "c div 64 = c div 4096 * 64 + m"
    and "c = c div 64 * 64 + l"
    using div_mult2_eq [of c 64 64] div_mult2_eq [of c 4096 64]
    by (simp_all add: p_def q_def m_def l_def)
  then have c: "c = p * 262144 + q * 4096 + m * 64 + l"
    by (simp add: add_mult_distrib)
  have small: "q < 64" "m < 64" "l < 64"
    by (simp_all add: q_def m_def l_def)
  with assms c have p: "p \<le> 4" and "p = 0 \<Longrightarrow> 16 \<le> q" and "p = 4 \<Longrightarrow> q \<le> 15"
    by linarith+
  with small have lo: "(if p = 0 then 0x90 else 0x80) \<le> 0x80 + q"
    and hi: "0x80 + q \<le> (if p = 4 then 0x8F else 0xBF)"
    by simp_all
  from p have "unat b1 = p + 0xF0"
    unfolding b1_def by (intro unat_byte_of_nat) simp
  moreover have "unat b2 = 0x80 + q" and "unat b3 = 0x80 + m" and "unat b4 = 0x80 + l"
    by (simp_all add: b2_def b3_def b4_def unat_continuation_byte q_def m_def l_def)
  ultimately have "reads fresh [b1, b2, b3, b4] (p * 262144 + q * 4096 + m * 64 + l)"
    using p lo hi small by (simp add: reads_four add_mult_distrib)
  then show ?thesis
    unfolding c [symmetric] b1_def b2_def b3_def b4_def
    using assms by (simp add: utf8_encode_code_point_def p_def)
qed

lemma reads_encoded: "scalar_value c \<Longrightarrow> reads fresh (utf8_encode_code_point c) c"
proof -
  assume scalar: "scalar_value c"
  then have "c \<le> 0x10FFFF"
    by (simp add: scalar_value_def)
  then consider "c \<le> 0x7F" | "0x80 \<le> c" "c \<le> 0x7FF" | "0x800 \<le> c" "c \<le> 0xFFFF"
    | "0x10000 \<le> c" "c \<le> 0x10FFFF"
    by atomize_elim linarith
  then show ?thesis
  proof cases
    case 1
    then have "unat (of_nat c :: byte) = c"
      by (intro unat_byte_of_nat) simp
    with 1 show ?thesis
      by (simp add: utf8_encode_code_point_def reads_ascii)
  qed (simp_all add: scalar reads_encoded_two reads_encoded_three reads_encoded_four)
qed

section \<open>What is read is an encoding\<close>

lemma reads_two_sound:
  assumes lead: "0xC2 \<le> unat b1" "unat b1 \<le> 0xDF" and reads: "reads fresh (b1 # rest) c"
  shows "scalar_value c \<and> b1 # rest = utf8_encode_code_point c"
proof -
  from reads obtain b2 where "rest = [b2]" and "0x80 \<le> unat b2" and "unat b2 \<le> 0xBF"
    and "c = (unat b1 - 0xC0) * 64 + (unat b2 - 0x80)"
    unfolding reads_two [OF lead] by blast
  with lead show ?thesis
    by (simp only: encode_two)
qed

lemma reads_three_sound:
  assumes lead: "0xE0 \<le> unat b1" "unat b1 \<le> 0xEF" and reads: "reads fresh (b1 # rest) c"
  shows "scalar_value c \<and> b1 # rest = utf8_encode_code_point c"
proof -
  from reads obtain b2 b3 where "rest = [b2, b3]"
    and "(if unat b1 = 0xE0 then 0xA0 else 0x80) \<le> unat b2"
    and "unat b2 \<le> (if unat b1 = 0xED then 0x9F else 0xBF)"
    and "0x80 \<le> unat b3" and "unat b3 \<le> 0xBF"
    and "c = ((unat b1 - 0xE0) * 64 + (unat b2 - 0x80)) * 64 + (unat b3 - 0x80)"
    unfolding reads_three [OF lead] by blast
  with lead show ?thesis
    by (simp only: encode_three)
qed

lemma reads_four_sound:
  assumes lead: "0xF0 \<le> unat b1" "unat b1 \<le> 0xF4" and reads: "reads fresh (b1 # rest) c"
  shows "scalar_value c \<and> b1 # rest = utf8_encode_code_point c"
proof -
  from reads obtain b2 b3 b4 where "rest = [b2, b3, b4]"
    and "(if unat b1 = 0xF0 then 0x90 else 0x80) \<le> unat b2"
    and "unat b2 \<le> (if unat b1 = 0xF4 then 0x8F else 0xBF)"
    and "0x80 \<le> unat b3" and "unat b3 \<le> 0xBF" and "0x80 \<le> unat b4" and "unat b4 \<le> 0xBF"
    and "c = (((unat b1 - 0xF0) * 64 + (unat b2 - 0x80)) * 64 + (unat b3 - 0x80)) * 64 +
      (unat b4 - 0x80)"
    unfolding reads_four [OF lead] by blast
  with lead show ?thesis
    by (simp only: encode_four)
qed

lemma reads_sound:
  assumes "reads fresh bs c"
  shows "scalar_value c \<and> bs = utf8_encode_code_point c"
proof -
  from assms obtain b1 rest where bs: "bs = b1 # rest"
    by (cases bs) simp_all
  consider "unat b1 < 0x80" | "0xC2 \<le> unat b1" "unat b1 \<le> 0xDF"
    | "0xE0 \<le> unat b1" "unat b1 \<le> 0xEF" | "0xF0 \<le> unat b1" "unat b1 \<le> 0xF4"
    | "0x80 \<le> unat b1" "\<not> (0xC2 \<le> unat b1 \<and> unat b1 \<le> 0xF4)"
    by atomize_elim linarith
  then show ?thesis
  proof cases
    case 1
    with assms show ?thesis
      by (simp add: bs reads_ascii encode_ascii scalar_value_def)
  next
    case 2
    from this assms show ?thesis
      unfolding bs by (rule reads_two_sound)
  next
    case 3
    from this assms show ?thesis
      unfolding bs by (rule reads_three_sound)
  next
    case 4
    from this assms show ?thesis
      unfolding bs by (rule reads_four_sound)
  next
    case 5
    with assms show ?thesis
      by (auto simp: bs reads_fresh_Cons split: if_splits)
  qed
qed

lemma reads_iff_encoding:
  "reads fresh bs c \<longleftrightarrow> scalar_value c \<and> bs = utf8_encode_code_point c"
  using reads_sound [of bs c] reads_encoded [of c] by blast

section \<open>Round trips\<close>

lemma decode_encoded_code_point:
  "scalar_value c \<Longrightarrow>
     decode_from fresh (utf8_encode_code_point c @ rest) = c # decode_from fresh rest"
  by (rule reads_decode [OF decoder_ok_fresh]) (simp add: reads_iff_encoding)

lemma decode_encoded:
  "list_all scalar_value cps \<Longrightarrow> decode_from fresh (utf8_encode cps) = cps"
  by (induction cps) (simp_all add: utf8_encode_def decode_encoded_code_point)

lemma utf8_decode_encode:
  "list_all scalar_value cps \<Longrightarrow> utf8_decode (utf8_encode cps) = CodePointsToString cps"
  by (simp add: utf8_decode_def decode_encoded)

lemma utf8_encode_inject:
  "list_all scalar_value cps \<Longrightarrow> list_all scalar_value cps' \<Longrightarrow>
     utf8_encode cps = utf8_encode cps' \<longleftrightarrow> cps = cps'"
  by (metis decode_encoded)

lemma strict_encoded_code_point:
  "scalar_value c \<Longrightarrow>
     decode_strict_from fresh (utf8_encode_code_point c @ rest) =
       map_option ((#) c) (decode_strict_from fresh rest)"
  by (rule reads_strict [OF decoder_ok_fresh]) (simp add: reads_iff_encoding)

lemma decode_strict_encoded:
  "list_all scalar_value cps \<Longrightarrow> decode_strict (utf8_encode cps) = Some cps"
  unfolding decode_strict_def
  by (induction cps) (simp_all add: utf8_encode_def strict_encoded_code_point)

lemma decode_strict_sound:
  "decode_strict_from fresh bytes = Some cps \<Longrightarrow>
     list_all scalar_value cps \<and> bytes = utf8_encode cps"
proof (induction bytes arbitrary: cps rule: length_induct)
  case (1 bytes)
  show ?case
  proof (cases "bytes = []")
    case True
    with "1.prems" show ?thesis
      by (auto simp: utf8_encode_def)
  next
    case False
    with "1.prems" obtain bs rest c cps' where parts: "bytes = bs @ rest" "bs \<noteq> []"
      "reads fresh bs c" "cps = c # cps'" "decode_strict_from fresh rest = Some cps'"
      using strict_split [OF decoder_ok_fresh, of bytes cps] by blast
    then have "length rest < length bytes"
      by simp
    with "1.IH" parts(5) have "list_all scalar_value cps' \<and> rest = utf8_encode cps'"
      by blast
    with parts show ?thesis
      by (simp add: reads_iff_encoding utf8_encode_def)
  qed
qed

lemma decode_strict_Some_iff:
  "decode_strict bytes = Some cps \<longleftrightarrow> list_all scalar_value cps \<and> bytes = utf8_encode cps"
  using decode_strict_sound [of bytes cps] decode_strict_encoded [of cps]
  by (auto simp: decode_strict_def)

lemma decode_strict_None_iff:
  "decode_strict bytes = None \<longleftrightarrow>
     \<not> (\<exists>cps. list_all scalar_value cps \<and> bytes = utf8_encode cps)"
  by (cases "decode_strict bytes") (auto simp: decode_strict_Some_iff decode_strict_encoded)

lemma decode_strict_agrees:
  "decode_strict bytes = Some cps \<Longrightarrow> utf8_decode bytes = CodePointsToString cps"
  by (simp add: decode_strict_Some_iff utf8_decode_encode)

lemma decode_strict_examples:
  "decode_strict [0x54, 0xC3, 0xA9] = Some [0x54, 0xE9]"
  "decode_strict [0xEF, 0xBB, 0xBF] = Some [0xFEFF]"
  "decode_strict [0xC3] = None"
  "decode_strict [0xC0, 0x80] = None"
  "decode_strict [0xED, 0xA0, 0x80] = None"
  "decode_strict [0xF4, 0x90, 0x80, 0x80] = None"
  "decode_strict [0x54, 0xFF] = None"
  by (simp_all add: decode_strict_def handler_arith fresh_def)

end
