(* ===== verification/Byte_World.thy ===== *)
theory Byte_World
  imports UTF8_Codec Validator
begin

text \<open>
  The script on the bytes of the file.

  \<^verbatim>\<open>fs.readFileSync("CLARIFICATION_REQUEST.md", "utf8")\<close> (\<^verbatim>\<open>src/validate.js\<close>,
  line 5) reads the bytes of the file and decodes them.  \<open>disk\<close> is what the
  file system holds, the bytes of each path or the cause for which it cannot be
  read; \<open>readFileSync_utf8\<close> is the call on such a disk.  \<open>decoded_view\<close> turns
  a disk into the \<open>filesystem\<close> of decoded texts that the theory \<open>Node_Env\<close>
  starts from, and \<open>mount\<close> makes the \<open>world\<close> of it, so that every lemma on
  \<open>script\<close> applies to disks; \<open>disk_with\<close> is the disk that holds the one file.
  \<open>validate_bytes\<close> is the reference the script is compared with: what the
  validation is to give, said of the bytes alone and without any decoding;
  \<open>names_only\<close> is the shortest file that passes, the six names one after
  the other.  \<open>spec_read\<close> and \<open>spec_run\<close> are the read and the run as the
  specification describes them: a file that cannot be read or that is not
  valid text is refused (\<open>read_failure\<close>), and the text of any other file
  is validated by \<open>spec_validate\<close>.

  The lemmas show that the read of the world is the read of the disk, that a
  read fails for the file system's reasons only and never for the bytes it
  finds, that the script on a disk is \<open>validate_bytes\<close> (\<open>fst_script_mount\<close>),
  so that it passes exactly when the bytes of the six names occur in the bytes
  of the file, that bytes added to a file never turn a pass into a failure and
  bytes outside ASCII around it change nothing, what a file with malformed
  bytes gives, and where the script and the specification's run agree: on
  every file that cannot be read and on every file that is well-formed UTF-8,
  but not on the files that the specification refuses as undecodable.
\<close>

section \<open>Definitions\<close>

type_synonym disk = "js_string \<Rightarrow> fs_cause + byte list"

definition readFileSync_utf8 :: "js_string \<Rightarrow> disk \<Rightarrow> js_string completion" where
  "readFileSync_utf8 p d =
     (case d p of
        Inl cause \<Rightarrow> Inl (FileAccessError cause)
      | Inr bytes \<Rightarrow> Inr (utf8_decode bytes))"

definition decoded_view :: "disk \<Rightarrow> filesystem" where
  "decoded_view d p = (case d p of Inl cause \<Rightarrow> Inl cause | Inr bytes \<Rightarrow> Inr (utf8_decode bytes))"

definition mount :: "disk \<Rightarrow> js_string \<Rightarrow> world" where
  "mount d out = \<lparr>files = decoded_view d, stdout = out\<rparr>"

definition disk_with :: "byte list \<Rightarrow> disk" where
  "disk_with bytes = (\<lambda>p. if p = path then Inr bytes else Inl ENOENT)"

definition validate_bytes :: "fs_cause + byte list \<Rightarrow> unit completion" where
  "validate_bytes file =
     (case file of
        Inl cause \<Rightarrow> Inl (FileAccessError cause)
      | Inr bytes \<Rightarrow>
          (case first_failing (\<lambda>name. sublist (map byte_of_unit name) bytes) requiredSections of
             Some name \<Rightarrow> Inl (Error (missing_message name))
           | None \<Rightarrow> Inr ()))"

datatype read_failure = Unreadable fs_cause | Undecodable

definition spec_read :: "fs_cause + byte list \<Rightarrow> read_failure + js_string" where
  "spec_read file =
     (case file of
        Inl cause \<Rightarrow> Inl (Unreadable cause)
      | Inr bytes \<Rightarrow>
          (case decode_strict bytes of
             None \<Rightarrow> Inl Undecodable
           | Some cps \<Rightarrow> Inr (CodePointsToString cps)))"

definition spec_run :: "fs_cause + byte list \<Rightarrow> read_failure + outcome" where
  "spec_run file =
     (case spec_read file of
        Inl failure \<Rightarrow> Inl failure
      | Inr content \<Rightarrow> Inr (spec_validate content))"

definition names_only :: "byte list" where
  "names_only = concat (map (map byte_of_unit) requiredSections)"

section \<open>Reading from a disk\<close>

lemma files_mount [simp]: "files (mount d out) = decoded_view d"
  by (simp add: mount_def)

lemma stdout_mount [simp]: "stdout (mount d out) = out"
  by (simp add: mount_def)

lemma decoded_view_Inl_iff [simp]: "decoded_view d p = Inl cause \<longleftrightarrow> d p = Inl cause"
  by (simp add: decoded_view_def split: sum.splits)

lemma decoded_view_Inr_iff:
  "decoded_view d p = Inr content \<longleftrightarrow> (\<exists>bytes. d p = Inr bytes \<and> content = utf8_decode bytes)"
  by (auto simp: decoded_view_def split: sum.splits)

lemma readFileSync_mount: "readFileSync p (mount d out) = readFileSync_utf8 p d"
  by (simp add: readFileSync_def readFileSync_utf8_def decoded_view_def split: sum.splits)

lemma console_log_mount: "console_log data (mount d out) = mount d (out @ data @ [line_feed])"
  by (simp add: console_log_def mount_def)

lemma disk_with_path [simp]: "disk_with bytes path = Inr bytes"
  by (simp add: disk_with_def)

section \<open>The required names as bytes\<close>

lemma ascii_name_bytes:
  assumes "list_all ascii_unit name"
  shows "map unit_of_byte (map byte_of_unit name) = name"
    and "list_all ascii_byte (map byte_of_unit name)"
  using assms by (simp_all add: list_all_iff map_idI unit_of_byte_of_unit ascii_byte_of_unit)

lemma ascii_unit_code_unit_of: "ascii_unit (code_unit_of c) \<longleftrightarrow> of_char c < (0x80 :: nat)"
  by (simp add: ascii_unit_def unat_code_unit_of)

lemma requiredSections_ascii: "list_all (list_all ascii_unit) requiredSections"
  by (simp add: requiredSections_def ascii_unit_code_unit_of)

lemma name_in_decoded_iff:
  assumes "list_all ascii_unit name"
  shows "sublist name (utf8_decode bytes) \<longleftrightarrow> sublist (map byte_of_unit name) bytes"
  using sublist_decoded_iff [OF ascii_name_bytes(2) [OF assms], of bytes]
  by (simp only: ascii_name_bytes(1) [OF assms])

lemma required_in_decoded_iff:
  "list_all (\<lambda>name. sublist name (utf8_decode bytes)) requiredSections \<longleftrightarrow>
   list_all (\<lambda>name. sublist (map byte_of_unit name) bytes) requiredSections"
  using requiredSections_ascii by (auto simp: list_all_iff name_in_decoded_iff)

section \<open>The script as a function of the bytes\<close>

lemma first_failing_decoded:
  "first_failing (\<lambda>name. sublist name (utf8_decode bytes)) requiredSections =
   first_failing (\<lambda>name. sublist (map byte_of_unit name) bytes) requiredSections"
  using requiredSections_ascii
  by (intro first_failing_cong) (simp add: list_all_iff name_in_decoded_iff)

lemma fst_script_mount: "fst (script (mount d out)) = validate_bytes (d path)"
  by (cases "mount d out" rule: script_cases)
    (auto simp: validate_bytes_def decoded_view_Inr_iff first_failing_decoded
      first_failing_None_iff [symmetric])

lemma validate_bytes_Inr_iff:
  "validate_bytes file = Inr () \<longleftrightarrow>
     (\<exists>bytes. file = Inr bytes \<and>
        list_all (\<lambda>name. sublist (map byte_of_unit name) bytes) requiredSections)"
  by (auto simp: validate_bytes_def first_failing_None_iff [symmetric] split: sum.splits option.splits)

lemma validate_bytes_mono:
  "validate_bytes (Inr bytes) = Inr () \<Longrightarrow> validate_bytes (Inr (before @ bytes @ after)) = Inr ()"
  by (auto simp: validate_bytes_Inr_iff list_all_iff intro: sublist_trans [where ys = bytes])

lemma validate_bytes_noise:
  assumes "list_all (\<lambda>b. \<not> ascii_byte b) before" and "list_all (\<lambda>b. \<not> ascii_byte b) after"
  shows "validate_bytes (Inr (before @ bytes @ after)) = validate_bytes (Inr bytes)"
proof -
  have "first_failing (\<lambda>name. sublist (map byte_of_unit name) (before @ bytes @ after))
      requiredSections =
    first_failing (\<lambda>name. sublist (map byte_of_unit name) bytes) requiredSections"
  proof (rule first_failing_cong)
    fix name
    assume "name \<in> set requiredSections"
    with requiredSections_ascii requiredSections_nonempty_names
    have "list_all ascii_byte (map byte_of_unit name)" and "map byte_of_unit name \<noteq> []"
      by (auto simp: list_all_iff ascii_byte_of_unit)
    with assms show "sublist (map byte_of_unit name) (before @ bytes @ after) \<longleftrightarrow>
        sublist (map byte_of_unit name) bytes"
      by (rule sublist_in_noise)
  qed
  then show ?thesis
    by (simp add: validate_bytes_def)
qed

lemma validate_names_only: "validate_bytes (Inr names_only) = Inr ()"
  by (simp add: validate_bytes_Inr_iff names_only_def list_all_iff sublist_in_concat)

lemma script_on_bytes:
  "fst (script (mount d out)) = Inr () \<longleftrightarrow>
     (\<exists>bytes. d path = Inr bytes \<and>
        list_all (\<lambda>name. sublist (map byte_of_unit name) bytes) requiredSections)"
  by (auto simp: script_passes_iff decoded_view_Inr_iff required_in_decoded_iff)

lemma script_file_error_iff:
  "fst (script (mount d out)) = Inl (FileAccessError cause) \<longleftrightarrow> d path = Inl cause"
  by (cases "mount d out" rule: script_cases) (auto simp: decoded_view_Inr_iff)

lemma fst_script_read:
  "d path = Inr bytes \<Longrightarrow>
     fst (script (mount d out)) = check_sections (utf8_decode bytes) requiredSections"
  by (simp add: script_def readFileSync_mount readFileSync_utf8_def split: sum.splits)

section \<open>The reading that the specification asks for\<close>

lemma spec_read_Inr_iff:
  "spec_read file = Inr content \<longleftrightarrow>
     (\<exists>cps. list_all scalar_value cps \<and> file = Inr (utf8_encode cps) \<and>
        content = CodePointsToString cps)"
  by (auto simp: spec_read_def decode_strict_Some_iff decode_strict_encoded utf8_encode_inject
      split: sum.splits option.splits)

lemma spec_read_Unreadable_iff [simp]: "spec_read file = Inl (Unreadable cause) \<longleftrightarrow> file = Inl cause"
  by (simp add: spec_read_def split: sum.splits option.splits)

lemma spec_read_Undecodable_iff:
  "spec_read file = Inl Undecodable \<longleftrightarrow> (\<exists>bytes. file = Inr bytes \<and> decode_strict bytes = None)"
  by (simp add: spec_read_def split: sum.splits option.splits)

lemma spec_read_agrees: "spec_read (d p) = Inr content \<Longrightarrow> readFileSync_utf8 p d = Inr content"
  by (auto simp: spec_read_Inr_iff readFileSync_utf8_def utf8_decode_encode)

lemma spec_run_Inr_iff:
  "spec_run file = Inr result \<longleftrightarrow>
     (\<exists>content. spec_read file = Inr content \<and> result = spec_validate content)"
  by (auto simp: spec_run_def split: sum.splits)

lemma spec_run_Inl_iff [simp]: "spec_run file = Inl failure \<longleftrightarrow> spec_read file = Inl failure"
  by (simp add: spec_run_def split: sum.splits)

lemma spec_run_malformed_example: "spec_run (Inr (0xFF # bytes)) = Inl Undecodable"
  by (simp add: spec_read_Undecodable_iff decode_strict_def handler_arith fresh_def)

section \<open>Examples\<close>

lemma read_malformed_example:
  "readFileSync_utf8 path (disk_with [0xFF, 0x54, 0xC3]) = Inr [0xFFFD, 0x54, 0xFFFD]"
  by (simp add: readFileSync_utf8_def utf8_decode_def decode_from.simps(2) handler_arith
      fresh_def UTF16EncodeCodePoint_def)

lemma script_malformed_example:
  "fst (script (mount (disk_with [0xFF, 0xFE]) [])) =
     Inl (Error (js ''Missing section: Title''))"
proof -
  have "readFileSync path (mount (disk_with [0xFF, 0xFE]) []) = Inr [0xFFFD, 0xFFFD]"
    by (simp add: readFileSync_mount readFileSync_utf8_def utf8_decode_def
        decode_from.simps(2) handler_arith fresh_def UTF16EncodeCodePoint_def)
  then show ?thesis
    by (simp add: script_def requiredSections_def missing_message_def includes_iff_sublist
        sublist_Cons_right code_unit_of_def)
qed

section \<open>Properties of the script on a disk\<close>

text \<open>
  C33 (roundtrip).  A text that was written to the file in UTF-8 is read as
  the text that was written: reading the encoding of any sequence of scalar
  values gives the string of those code points.
\<close>

theorem read_encoded_text:
  "d p = Inr (utf8_encode cps) \<Longrightarrow> list_all scalar_value cps \<Longrightarrow>
     readFileSync_utf8 p d = Inr (CodePointsToString cps)"
  by (simp add: readFileSync_utf8_def utf8_decode_encode)

theorem read_encoded_text_witness:
  "list_all scalar_value [0x54, 0xE9, 0x20AC, 0x1F600] \<and>
   utf8_encode [0x54, 0xE9, 0x20AC, 0x1F600] =
     [0x54, 0xC3, 0xA9, 0xE2, 0x82, 0xAC, 0xF0, 0x9F, 0x98, 0x80] \<and>
   readFileSync_utf8 path (disk_with (utf8_encode [0x54, 0xE9, 0x20AC, 0x1F600])) =
     Inr [0x54, 0xE9, 0x20AC, 0xD83D, 0xDE00]"
proof -
  have scalar: "list_all scalar_value [0x54, 0xE9, 0x20AC, 0x1F600]"
    by (simp add: scalar_value_def)
  have bytes: "utf8_encode [0x54, 0xE9, 0x20AC, 0x1F600] =
      [0x54, 0xC3, 0xA9, 0xE2, 0x82, 0xAC, 0xF0, 0x9F, 0x98, 0x80]"
    by (simp add: utf8_encode_def utf8_encode_code_point_def continuation_byte_def)
  from read_encoded_text [of "disk_with (utf8_encode [0x54, 0xE9, 0x20AC, 0x1F600])" path,
      OF disk_with_path scalar] scalar bytes
  show ?thesis
    by (simp add: UTF16EncodeCodePoint_def)
qed

text \<open>
  C34 (error).  The read never fails for what the file holds: whenever the
  file system hands over the bytes of the file, the call returns a string,
  well formed and no longer than the bytes, also when the bytes are not valid
  UTF-8.
\<close>

theorem read_decodes_any_bytes:
  "d p = Inr bytes \<Longrightarrow>
     \<exists>content. readFileSync_utf8 p d = Inr content \<and> well_formed_utf16 content \<and>
       length content \<le> length bytes"
  by (simp add: readFileSync_utf8_def utf8_decode_well_formed utf8_decode_length)

theorem read_decodes_any_bytes_witness:
  "disk_with [0xFF, 0x54, 0xC3] path = Inr [0xFF, 0x54, 0xC3] \<and>
   (\<exists>content. readFileSync_utf8 path (disk_with [0xFF, 0x54, 0xC3]) = Inr content \<and>
      well_formed_utf16 content \<and> length content \<le> length [0xFF, 0x54, 0xC3 :: byte])"
  using read_decodes_any_bytes [of "disk_with [0xFF, 0x54, 0xC3]" path, OF disk_with_path]
  by simp

text \<open>
  C35 (equivalence).  The specification reads the file as valid text and
  refuses it otherwise.  Its reading succeeds exactly when the file holds
  well-formed UTF-8, the encoding of a sequence of scalar values, and then the
  script's read returns the same text: on every file that the specification
  accepts, the script sees what the specification sees.
\<close>

theorem read_agrees_with_spec:
  "spec_read (d p) = Inr content \<longleftrightarrow>
     readFileSync_utf8 p d = Inr content \<and>
     (\<exists>cps. list_all scalar_value cps \<and> d p = Inr (utf8_encode cps))"
  by (auto simp: spec_read_Inr_iff readFileSync_utf8_def utf8_decode_encode)

text \<open>
  C36 (refinement).  The script against the specification of the whole run.
  Where the specification gives an outcome, the completion of the script
  stands for that outcome.  The specification fails for a file that cannot be
  read exactly when the script throws the file access error, with the same
  cause.  Where the specification refuses a file as undecodable, the script
  does not: it reads the text with U+FFFD in the place of what is malformed
  and goes on to check the sections.
\<close>

theorem script_against_spec:
  "(spec_run (d path) = Inr result \<longrightarrow> outcome_of (fst (script (mount d out))) = Some result) \<and>
   (spec_run (d path) = Inl (Unreadable cause) \<longleftrightarrow>
      fst (script (mount d out)) = Inl (FileAccessError cause)) \<and>
   (spec_run (d path) = Inl Undecodable \<longrightarrow>
      (\<exists>bytes. d path = Inr bytes \<and>
         fst (script (mount d out)) = check_sections (utf8_decode bytes) requiredSections))"
proof (intro conjI impI)
  assume "spec_run (d path) = Inr result"
  then obtain cps where "d path = Inr (utf8_encode cps)" and "list_all scalar_value cps"
    and "result = spec_validate (CodePointsToString cps)"
    by (auto simp: spec_run_Inr_iff spec_read_Inr_iff)
  then show "outcome_of (fst (script (mount d out))) = Some result"
    by (simp add: fst_script_read utf8_decode_encode outcome_of_check_sections spec_validate_def)
next
  show "spec_run (d path) = Inl (Unreadable cause) \<longleftrightarrow>
      fst (script (mount d out)) = Inl (FileAccessError cause)"
    by (simp add: script_file_error_iff)
next
  assume "spec_run (d path) = Inl Undecodable"
  then show "\<exists>bytes. d path = Inr bytes \<and>
      fst (script (mount d out)) = check_sections (utf8_decode bytes) requiredSections"
    by (auto simp: spec_read_Undecodable_iff fst_script_read)
qed

theorem script_against_spec_witness:
  "spec_run (disk_with (0xFF # names_only) path) = Inl Undecodable \<and>
   fst (script (mount (disk_with (0xFF # names_only)) [])) =
     check_sections (utf8_decode (0xFF # names_only)) requiredSections \<and>
   fst (script (mount (disk_with (0xFF # names_only)) [])) = Inr ()"
proof -
  have refused: "spec_run (disk_with (0xFF # names_only) path) = Inl Undecodable"
    by (simp add: spec_run_malformed_example)
  have "validate_bytes (Inr ([0xFF] @ names_only @ [])) = Inr ()"
    using validate_names_only by (rule validate_bytes_mono)
  then have "fst (script (mount (disk_with (0xFF # names_only)) [])) = Inr ()"
    by (simp add: fst_script_mount)
  with script_against_spec [where d = "disk_with (0xFF # names_only)" and out = "[]"] refused
  show ?thesis
    by simp
qed

text \<open>
  C37 (refinement).  On a disk the script is the function \<open>validate_bytes\<close> of
  what the disk holds at the path: it throws the file access error when the
  read is refused, the error that names the first required name whose bytes
  do not occur in the file when there is one, and otherwise completes; it
  writes the line of success in the last case and nothing in the others, and
  it leaves the disk as it was.
\<close>

theorem script_refines_bytes:
  "script (mount d out) =
     (validate_bytes (d path),
      mount d (if validate_bytes (d path) = Inr () then out @ success_message @ [line_feed]
               else out))"
  by (simp add: prod_eq_iff fst_script_mount script_world console_log_mount)

text \<open>
  C38 (safety).  Bytes added to a file that passes never make it fail,
  wherever they are added and also when they are not valid UTF-8 or complete
  a sequence that the file left open: the check is monotone in the bytes
  although the decoded text around the addition may change.
\<close>

theorem script_monotone_in_bytes:
  "d path = Inr bytes \<Longrightarrow> d' path = Inr (before @ bytes @ after) \<Longrightarrow>
     fst (script (mount d out)) = Inr () \<Longrightarrow> fst (script (mount d' out')) = Inr ()"
  by (simp add: fst_script_mount validate_bytes_mono)

theorem script_monotone_in_bytes_witness:
  "fst (script (mount (disk_with names_only) [])) = Inr () \<and>
   fst (script (mount (disk_with ([0xC3] @ names_only @ [0xA9, 0xFF])) [])) = Inr ()"
proof -
  have "fst (script (mount (disk_with names_only) [])) = Inr ()"
    by (simp add: fst_script_mount validate_names_only)
  with script_monotone_in_bytes [of "disk_with names_only" names_only
      "disk_with ([0xC3] @ names_only @ [0xA9, 0xFF])" "[0xC3]" "[0xA9, 0xFF]" "[]" "[]"]
  show ?thesis
    by simp
qed

text \<open>
  C39 (equivalence).  Bytes outside ASCII before and after the content of a
  file do not change the outcome of the script: a byte order mark in front, a
  sequence cut short at the end, or any other bytes of 0x80 and above give the
  same completion, with the same missing name when there is one.
\<close>

theorem script_ignores_foreign_bytes:
  "d path = Inr bytes \<Longrightarrow> d' path = Inr (before @ bytes @ after) \<Longrightarrow>
   list_all (\<lambda>b. \<not> ascii_byte b) before \<Longrightarrow> list_all (\<lambda>b. \<not> ascii_byte b) after \<Longrightarrow>
     fst (script (mount d' out')) = fst (script (mount d out))"
  by (simp add: fst_script_mount validate_bytes_noise)

theorem script_ignores_foreign_bytes_witness:
  "list_all (\<lambda>b. \<not> ascii_byte b) [0xEF, 0xBB, 0xBF] \<and>
   list_all (\<lambda>b. \<not> ascii_byte b) [0xE2, 0x82] \<and>
   fst (script (mount (disk_with ([0xEF, 0xBB, 0xBF] @ [0x54, 0x69, 0x74, 0x6C, 0x65] @ [0xE2, 0x82])) [])) =
     fst (script (mount (disk_with [0x54, 0x69, 0x74, 0x6C, 0x65]) []))"
  using script_ignores_foreign_bytes [of "disk_with [0x54, 0x69, 0x74, 0x6C, 0x65]"
      "[0x54, 0x69, 0x74, 0x6C, 0x65]"
      "disk_with ([0xEF, 0xBB, 0xBF] @ [0x54, 0x69, 0x74, 0x6C, 0x65] @ [0xE2, 0x82])"
      "[0xEF, 0xBB, 0xBF]" "[0xE2, 0x82]" "[]" "[]"]
  by (simp add: ascii_byte_def)

end
