(* ===== verification/Process.thy ===== *)
theory Process
  imports Validator "HOL-Library.State_Monad"
begin

text \<open>
  The process that runs the script, and the calls it makes.

  The theory \<open>Validator\<close> gives the script as a function of the world.  This
  theory runs the same statements as a program in the state monad of the
  library, over a state that also records what the process does: \<open>process\<close> is
  the world of the script (\<open>env\<close>), the text on the error stream (\<open>stderr\<close>)
  and the calls made so far, in order (\<open>calls\<close>).

  \<^item> \<open>readFileSync_call\<close> and \<open>console_log_call\<close> are the two calls of the
    script (lines 5 and 22 of \<^verbatim>\<open>src/validate.js\<close>): what \<open>readFileSync\<close> and
    \<open>console_log\<close> do to the world, and a record of the call.
  \<^item> \<open>script_calls\<close> is the script, statement by statement.
  \<^item> \<open>report_uncaught\<close> is what the runtime does with an exception that
    reaches the top level: it writes a report to the error stream.  The text
    of the report is the runtime's; it is the parameter \<open>report\<close>.
  \<^item> \<open>node_run\<close> is one run of the process: the script, the report if it
    threw, and the exit status.
  \<^item> \<open>accounted s s'\<close> says that \<open>s'\<close> comes from \<open>s\<close> by calls that are all on
    record: the two streams have grown by what the recorded calls wrote and
    the files are as they were.

  The lemmas show that \<open>script_calls\<close> computes \<open>script\<close> on the world
  (\<open>run_script_calls\<close>), that every action of the theory is accounted for, and
  what a run does: one read of the one file, then one write, to standard output
  with status 0 or to the error stream with status 1.
\<close>

section \<open>Definitions\<close>

datatype event = Read_File js_string | Write_Stdout js_string | Write_Stderr js_string

record process =
  env :: world
  stderr :: js_string
  calls :: "event list"

type_synonym 'a action = "(process, 'a) state"

definition readFileSync_call :: "js_string \<Rightarrow> js_string completion action" where
  "readFileSync_call p =
     State (\<lambda>s. (readFileSync p (env s), s\<lparr>calls := calls s @ [Read_File p]\<rparr>))"

definition console_log_call :: "js_string \<Rightarrow> unit action" where
  "console_log_call data =
     State_Monad.update (\<lambda>s. s\<lparr>env := console_log data (env s),
       calls := calls s @ [Write_Stdout (data @ [line_feed])]\<rparr>)"

definition script_calls :: "unit completion action" where
  "script_calls = do {
     read \<leftarrow> readFileSync_call path;
     case read of
       Inl e \<Rightarrow> State_Monad.return (Inl e)
     | Inr content \<Rightarrow>
         (case check_sections content requiredSections of
            Inl e \<Rightarrow> State_Monad.return (Inl e)
          | Inr _ \<Rightarrow> do {
              console_log_call success_message;
              State_Monad.return (Inr ())
            })
   }"

definition report_uncaught :: "(js_exn \<Rightarrow> js_string) \<Rightarrow> js_exn \<Rightarrow> unit action" where
  "report_uncaught report e =
     State_Monad.update (\<lambda>s. s\<lparr>stderr := stderr s @ report e,
       calls := calls s @ [Write_Stderr (report e)]\<rparr>)"

definition node_run :: "(js_exn \<Rightarrow> js_string) \<Rightarrow> nat action" where
  "node_run report = do {
     result \<leftarrow> script_calls;
     (case result of
        Inl e \<Rightarrow> report_uncaught report e
      | Inr _ \<Rightarrow> State_Monad.return ());
     State_Monad.return (exit_code result)
   }"

definition start :: "world \<Rightarrow> process" where
  "start w = \<lparr>env = w, stderr = [], calls = []\<rparr>"

fun written :: "event \<Rightarrow> js_string \<times> js_string" where
  "written (Read_File p) = ([], [])"
| "written (Write_Stdout data) = (data, [])"
| "written (Write_Stderr data) = ([], data)"

definition accounted :: "process \<Rightarrow> process \<Rightarrow> bool" where
  "accounted s s' \<longleftrightarrow>
     (let new = drop (length (calls s)) (calls s')
      in take (length (calls s)) (calls s') = calls s \<and>
         stdout (env s') = stdout (env s) @ concat (map (fst \<circ> written) new) \<and>
         stderr s' = stderr s @ concat (map (snd \<circ> written) new) \<and>
         files (env s') = files (env s))"

section \<open>Running the calls\<close>

lemma run_readFileSync_call [simp]:
  "run_state (readFileSync_call p) s = (readFileSync p (env s), s\<lparr>calls := calls s @ [Read_File p]\<rparr>)"
  by (simp add: readFileSync_call_def)

lemma run_console_log_call [simp]:
  "run_state (console_log_call data) s =
     ((), s\<lparr>env := console_log data (env s), calls := calls s @ [Write_Stdout (data @ [line_feed])]\<rparr>)"
  by (simp add: console_log_call_def State_Monad.update_def State_Monad.get_def
      State_Monad.set_def)

lemma run_report_uncaught [simp]:
  "run_state (report_uncaught report e) s =
     ((), s\<lparr>stderr := stderr s @ report e, calls := calls s @ [Write_Stderr (report e)]\<rparr>)"
  by (simp add: report_uncaught_def State_Monad.update_def State_Monad.get_def
      State_Monad.set_def)

lemma run_script_calls:
  "run_state script_calls s =
     (fst (script (env s)),
      s\<lparr>env := snd (script (env s)),
        calls := calls s @ Read_File path #
          (if fst (script (env s)) = Inr () then [Write_Stdout (success_message @ [line_feed])]
           else [])\<rparr>)"
  by (simp add: script_calls_def script_def split: sum.splits)

lemma run_node_run:
  "run_state (node_run report) s =
     (case fst (script (env s)) of
        Inr _ \<Rightarrow> (0, s\<lparr>env := console_log success_message (env s),
            calls := calls s @ [Read_File path, Write_Stdout (success_message @ [line_feed])]\<rparr>)
      | Inl e \<Rightarrow> (1, s\<lparr>stderr := stderr s @ report e,
            calls := calls s @ [Read_File path, Write_Stderr (report e)]\<rparr>))"
  by (cases "env s" rule: script_cases)
    (simp_all add: node_run_def run_script_calls exit_code_def)

lemma accounted_iff:
  "accounted s s' \<longleftrightarrow>
     (\<exists>new. calls s' = calls s @ new \<and>
        stdout (env s') = stdout (env s) @ concat (map (fst \<circ> written) new) \<and>
        stderr s' = stderr s @ concat (map (snd \<circ> written) new) \<and>
        files (env s') = files (env s))"
proof -
  have "take (length (calls s)) (calls s') = calls s \<longleftrightarrow>
      calls s' = calls s @ drop (length (calls s)) (calls s')"
    by (metis append_eq_conv_conj append_take_drop_id)
  then show ?thesis
    by (auto simp: accounted_def Let_def)
qed

lemma accounted_refl [simp]: "accounted s s"
  by (simp add: accounted_iff)

lemma accounted_trans: "accounted s t \<Longrightarrow> accounted t u \<Longrightarrow> accounted s u"
  by (auto simp: accounted_iff)

lemma readFileSync_call_accounted: "state_io_rel accounted (readFileSync_call p)"
  by (auto simp: accounted_iff)

lemma console_log_call_accounted: "state_io_rel accounted (console_log_call data)"
  by (auto simp: accounted_iff console_log_def)

lemma report_uncaught_accounted: "state_io_rel accounted (report_uncaught report e)"
  by (auto simp: accounted_iff)

lemma bind_accounted:
  "state_io_rel accounted m \<Longrightarrow> (\<And>x. state_io_rel accounted (f x)) \<Longrightarrow>
     state_io_rel accounted (State_Monad.bind m f)"
  by (auto simp: state_io_rel_def split: prod.splits intro: accounted_trans)

lemma return_accounted [simp]: "state_io_rel accounted (State_Monad.return x)"
  by auto

lemma script_calls_accounted: "state_io_rel accounted script_calls"
  unfolding script_calls_def
  by (intro bind_accounted readFileSync_call_accounted)
    (auto split: sum.splits intro!: bind_accounted console_log_call_accounted)

lemma node_run_accounted: "state_io_rel accounted (node_run report)"
  unfolding node_run_def
  by (intro bind_accounted script_calls_accounted)
    (auto split: sum.splits intro!: bind_accounted report_uncaught_accounted)

lemma node_run_status:
  "fst (run_state (node_run report) s) = exit_code (fst (script (env s)))"
  by (simp add: run_node_run exit_code_def split: sum.splits)

lemma script_calls_world:
  "env (snd (run_state script_calls s)) = snd (script (env s))"
  by (simp add: run_script_calls)

lemma reads_of_run:
  "run_state (node_run report) s = (status, s') \<Longrightarrow>
     filter (\<lambda>c. \<exists>p. c = Read_File p) (drop (length (calls s)) (calls s')) = [Read_File path]"
  by (auto simp: run_node_run split: sum.splits)

section \<open>Properties of a run\<close>

text \<open>
  C40 (safety).  A run of the process has exactly two effects, in this order:
  it reads the one file, and then it writes once, the line of success to
  standard output when the script completes, with status 0, or the report of
  the error to the error stream when the script throws, with status 1.  What
  the two streams gain is what these calls wrote, and no file changes.
\<close>

theorem run_side_effects:
  "run_state (node_run report) s = (status, s') \<Longrightarrow>
     accounted s s' \<and>
     (status = 0 \<and> fst (script (env s)) = Inr () \<and>
        calls s' = calls s @ [Read_File path, Write_Stdout (success_message @ [line_feed])]
      \<or> (\<exists>e. status = 1 \<and> fst (script (env s)) = Inl e \<and>
           calls s' = calls s @ [Read_File path, Write_Stderr (report e)]))"
proof
  assume run: "run_state (node_run report) s = (status, s')"
  with node_run_accounted show "accounted s s'"
    by (rule state_io_relD)
  from run show "status = 0 \<and> fst (script (env s)) = Inr () \<and>
        calls s' = calls s @ [Read_File path, Write_Stdout (success_message @ [line_feed])]
      \<or> (\<exists>e. status = 1 \<and> fst (script (env s)) = Inl e \<and>
           calls s' = calls s @ [Read_File path, Write_Stderr (report e)])"
    by (auto simp: run_node_run split: sum.splits)
qed

theorem run_side_effects_witness:
  "run_state (node_run (\<lambda>e. js ''uncaught'')) (start empty_disk) =
     (1, \<lparr>env = empty_disk, stderr = js ''uncaught'',
          calls = [Read_File path, Write_Stderr (js ''uncaught'')]\<rparr>) \<and>
   accounted (start empty_disk)
     \<lparr>env = empty_disk, stderr = js ''uncaught'',
      calls = [Read_File path, Write_Stderr (js ''uncaught'')]\<rparr> \<and>
   fst (script empty_disk) = Inl (FileAccessError ENOENT)"
proof -
  have run: "run_state (node_run (\<lambda>e. js ''uncaught'')) (start empty_disk) =
     (1, \<lparr>env = empty_disk, stderr = js ''uncaught'',
          calls = [Read_File path, Write_Stderr (js ''uncaught'')]\<rparr>)"
    by (simp add: node_run_def script_calls_def readFileSync_def exit_code_def start_def
        empty_disk_def)
  from run_side_effects [OF run] run show ?thesis
    by (simp add: start_def script_def readFileSync_def empty_disk_def)
qed

end
