(* ===== verification/Spec2Isabelle.thy ===== *)
theory Spec2Isabelle
  imports Validate_Prelude JS_String Node_Env Validator Loop_Machine
    UTF8_Decode UTF8_Text UTF8_Codec Byte_World Process
begin

text \<open>
  \<^bold>\<open>Verification of the structure validator \<^verbatim>\<open>src/validate.js\<close>.\<close>

  \<^bold>\<open>The program.\<close>  One script of 22 lines.  It reads the file
  \<^verbatim>\<open>CLARIFICATION_REQUEST.md\<close> as UTF-8 text (line 5), holds six section names in
  the array \<^verbatim>\<open>requiredSections\<close> (lines 7 to 14), goes through them in order and
  throws \<^verbatim>\<open>new Error(`Missing section: ${section}`)\<close> at the first one that
  \<^verbatim>\<open>content.includes(section)\<close> rejects (lines 16 to 20), and prints
  \<^verbatim>\<open>Structure validation passed\<close> when it gets through (line 22).  It has no
  state of its own; what it can observe and change is the file system and
  standard output, and what it leaves behind is its exit status.

  \<^bold>\<open>The theories.\<close>
  \<^descr>[\<open>Validate_Prelude\<close>] the shared vocabulary.  A JavaScript string is a list
    of 16-bit code units (\<open>js_string = 16 word list\<close>); \<open>js\<close> writes an ASCII
    literal of the script as such a list, injectively.  \<open>first_failing\<close> is the
    first element of a list that fails a test.  Lemmas on \<open>sublist\<close>, the
    library's "occurs as a contiguous part".
  \<^descr>[\<open>JS_String\<close>] the method \<^verbatim>\<open>String.prototype.includes\<close>: \<open>includes_str\<close> (the
    call of line 17), \<open>includes_from\<close> (with the position argument),
    \<open>StringIndexOf\<close> (the search over start indices, a \<^theory_text>\<open>function\<close> with the
    measure \<open>length string - fromIndex\<close>) and \<open>substring\<close>.  Its lemmas show
    that the search returns the least occurrence and that \<open>includes_str\<close> is
    \<open>sublist\<close>.  \<open>overlaps\<close> and \<open>overlap_free\<close> describe strings that cannot
    share code units of a text; a text that includes all strings of such a
    list is at least as long as all of them together.
  \<^descr>[\<open>Node_Env\<close>] the host: the exceptions \<open>js_exn\<close>, completions
    \<open>js_exn + 'a\<close>, the record \<open>world\<close> (\<open>files\<close>: the result of reading each
    path, \<open>stdout\<close>: the text written so far), \<open>readFileSync\<close>, \<open>console_log\<close>
    and \<open>exit_code\<close>, with their frame lemmas.
  \<^descr>[\<open>Validator\<close>] the script: its literals \<open>path\<close>, \<open>requiredSections\<close>,
    \<open>missing_message\<close>, \<open>success_message\<close>; the loop \<open>check_sections\<close>; the whole
    file \<open>script :: world \<Rightarrow> unit completion \<times> world\<close>; and the specification
    \<open>spec_validate\<close> with the abstraction \<open>outcome_of\<close>.  Its lemmas give the
    loop on every branch, the refinement of the specification, every way
    the script can end, and the least length of a passing document, 141.
  \<^descr>[\<open>Loop_Machine\<close>] the loop as a state machine (\<open>Checking i\<close>, \<open>Succeeded\<close>,
    \<open>Failed name\<close>) with the step relation \<open>step\<close>, the step function
    \<open>next_state\<close>, the invariant \<open>loop_inv\<close> and the measure \<open>rank\<close>.  Its
    lemmas show determinism, progress, the invariant in all reachable states,
    the bound on the number of steps, the exact length of a run (one step more
    than \<open>passed_prefix\<close>, the number of sections found before the first
    missing one) and the agreement with \<open>check_sections\<close>.
  \<^descr>[\<open>UTF8_Decode\<close>] the decoding that the read of line 5 applies to the bytes
    of the file: the decoder's state \<open>utf8_decoder\<close>, its \<open>handler\<close> for one
    byte, the run over the input \<open>decode_from\<close> with U+FFFD in the place of
    every malformed sequence, and the string of the code points
    (\<open>UTF16EncodeCodePoint\<close>, \<open>CodePointsToString\<close>, \<open>utf8_decode\<close>).  Its lemmas
    give the handler on every kind of byte, the invariant \<open>decoder_ok\<close> of the
    state, and that only scalar values are decoded, into a string no longer
    than the input.
  \<^descr>[\<open>UTF8_Text\<close>] the decoded text: ASCII bytes decode to themselves and
    nothing else decodes to ASCII, so an ASCII string occurs in the text exactly
    where its bytes occur in the input; the text is well formed UTF-16; the
    byte order mark is kept.
  \<^descr>[\<open>UTF8_Codec\<close>] the decoder against the encoder \<open>utf8_encode\<close>: the handler
    reads bytes as a code point exactly when they are the encoding of a scalar
    value (\<open>reads_iff_encoding\<close>), so decoding inverts encoding and accepts no
    other form.  \<open>decode_strict\<close> is the decoder that fails at the first error,
    the reading of a file as valid text; it succeeds exactly on well-formed
    UTF-8 and agrees with the script's decoder there.
  \<^descr>[\<open>Byte_World\<close>] the script on the bytes of the file: \<open>readFileSync_utf8\<close>
    is the read on a \<open>disk\<close> of bytes, \<open>mount\<close> the world that a disk gives,
    \<open>validate_bytes\<close> the validation said of the bytes alone.  Its lemmas show
    that the read fails for the file system's reasons only, that the script on
    a disk is \<open>validate_bytes\<close> of the file, so that it passes exactly when the
    bytes of the six names occur in the bytes of the file, that added bytes
    never turn a pass into a failure, and that bytes outside ASCII around the
    content, a byte order mark among them, change nothing.  \<open>spec_read\<close> and
    \<open>spec_run\<close> are the run as the specification describes it, with a file
    that is not valid text refused; the script agrees with it on every file
    that is well-formed UTF-8 or cannot be read, and differs on the others,
    which it checks instead of refusing.
  \<^descr>[\<open>Process\<close>] the process that runs the script: the state \<open>process\<close> (the
    world, the error stream and the calls made so far), the two calls of the
    script with their record (\<open>readFileSync_call\<close>, \<open>console_log_call\<close>), the
    script as a program in the library's state monad (\<open>script_calls\<close>), the
    report of an uncaught exception (\<open>report_uncaught\<close>) and one run
    (\<open>node_run\<close>).  Its lemmas show that the program computes \<open>script\<close>, that
    everything written is on record, and that a run is one read followed by one
    write.
  \<^descr>[\<open>Spec2Isabelle\<close>] this theory: the properties that need the script and the
    machine together, and the end-to-end scenarios on concrete documents.

  \<^bold>\<open>How the model corresponds to the code.\<close>  A statement that can throw returns
  a completion, \<open>Inl\<close> the thrown value; the exception of line 18 ends the loop
  and the script, so \<open>check_sections\<close> returns at the first \<open>Inl\<close> and \<open>script\<close>
  passes it on without printing.  The \<^verbatim>\<open>for ... of\<close> loop is recursion over the
  rest of the array in \<open>check_sections\<close> and one transition per iteration in
  \<open>step\<close>; both are proved to give the same outcome.  In \<open>Node_Env\<close> and
  \<open>Validator\<close> file contents enter as the decoded text that \<open>files w path\<close>
  gives, and a failed read as its cause; \<open>Byte_World\<close> puts the bytes below
  that: \<open>files (mount d out)\<close> is the decoding of what the disk \<open>d\<close> holds.
  The decoder is the one of the Encoding Standard and the string of the code
  points the one of the language specification, because the runtime that runs
  them is not part of the repository.

  \<^bold>\<open>Bounds.\<close>  Nothing in the model needs fuel.  \<open>StringIndexOf\<close> terminates by
  its measure; the machine is shown to stop after at most
  \<open>Suc (length sections)\<close> steps, that is 7 for the script; \<open>decode_from\<close>
  terminates because a byte is read at most twice, the second time by a decoder
  with no sequence under way.  Code units are kept at 16 bits and bytes at 8;
  the literals of the script stay below 256, every code point decoded is at
  most 0x10FFFF, and the two halves of a surrogate pair are computed without
  wrapping.

  \<^bold>\<open>Not modelled.\<close>  The loading of the \<^verbatim>\<open>fs\<close> module: line 3 binds a built-in
  module, which cannot fail and does nothing that the script or its user could
  observe; the model starts with the module's two functions at hand.  The text
  of the report that the runtime prints for an uncaught exception: it holds
  the stack of the runtime's own frames and is not fixed by anything in the
  repository, so \<open>node_run\<close> takes it as a parameter and the lemmas hold for
  every such text.  Of the exit status only 0 against 1 is modelled.  The path
  is looked up as given: the working directory it is relative to is part of
  the disk.  Everything else that the 22 lines do is in the model.
\<close>

section \<open>Documents for the scenarios\<close>

definition sample_document :: js_string where
  "sample_document = js (''# Title\<newline>...\<newline>## Background\<newline>...\<newline>'' @
     ''## Observed Ambiguity\<newline>...\<newline>## Specific Clarification Questions\<newline>...\<newline>'' @
     ''## Risk of Proceeding Without Clarification\<newline>...\<newline>'' @
     ''## Suggested Documentation Improvements\<newline>...'')"

definition truncated_document :: js_string where
  "truncated_document = js ''Title\<newline>Background\<newline>Observed Ambiguity''"

section \<open>End-to-end scenarios\<close>

lemma sample_document_passes: "check_sections sample_document requiredSections = Inr ()"
  by (simp add: sample_document_def requiredSections_def includes_iff_sublist
      sublist_Cons_right)

lemma scenario_all_sections:
  "script (world_with sample_document) =
     (Inr (), \<lparr>files = files (world_with sample_document),
               stdout = js ''Structure validation passed\<newline>''\<rparr>)"
proof -
  have "files (world_with sample_document) path = Inr sample_document"
    by (simp add: world_with_def)
  then have "script (world_with sample_document) =
      (Inr (), console_log success_message (world_with sample_document))"
    by (simp add: script_read sample_document_passes)
  then show ?thesis
    by (simp add: world_with_def console_log_def success_message_def line_feed_def
        code_unit_of_def)
qed

lemma scenario_missing_last_three:
  "script (world_with truncated_document) =
     (Inl (Error (js ''Missing section: Specific Clarification Questions'')),
      world_with truncated_document)"
proof -
  have "check_sections truncated_document requiredSections =
      Inl (Error (js ''Missing section: Specific Clarification Questions''))"
    by (simp add: truncated_document_def requiredSections_def missing_message_def
        includes_iff_sublist sublist_Cons_right)
  then show ?thesis
    by (simp add: script_def readFileSync_def world_with_def)
qed

lemma scenario_empty_file:
  "script (world_with []) = (Inl (Error (js ''Missing section: Title'')), world_with [])"
  by (simp add: script_def readFileSync_def world_with_def requiredSections_def
      missing_message_def)

lemma scenario_byte_order_mark:
  "fst (script (mount (disk_with (0xEF # 0xBB # 0xBF # map byte_of_unit sample_document)) [])) =
     Inr ()"
proof -
  have "list_all (\<lambda>name. sublist name sample_document) requiredSections"
    using sample_document_passes by (simp only: check_sections_Inr_iff)
  then have "list_all (\<lambda>name. sublist (map byte_of_unit name)
      (0xEF # 0xBB # 0xBF # map byte_of_unit sample_document)) requiredSections"
    by (auto simp: list_all_iff sublist_Cons_right intro: map_mono_sublist)
  then show ?thesis
    by (simp add: script_passes_iff decoded_view_def required_in_decoded_iff)
qed

lemma scenario_exit_codes:
  "exit_code (fst (script (world_with sample_document))) = 0"
  "exit_code (fst (script (world_with truncated_document))) = 1"
  "exit_code (fst (script empty_disk)) = 1"
  by (simp_all add: scenario_all_sections scenario_missing_last_three script_file_error
      empty_disk_def)

section \<open>The process on a disk\<close>

lemma run_on_disk_status:
  "fst (run_state (node_run report) (start (mount d out))) = exit_code (validate_bytes (d path))"
  by (simp add: node_run_status start_def fst_script_mount)

lemma scenario_run_all_sections:
  "run_state (node_run report) (start (world_with sample_document)) =
     (0, \<lparr>env = \<lparr>files = files (world_with sample_document),
                     stdout = js ''Structure validation passed\<newline>''\<rparr>,
          stderr = [],
          calls = [Read_File path, Write_Stdout (js ''Structure validation passed\<newline>'')]\<rparr>)"
  by (simp add: run_node_run start_def scenario_all_sections)
    (simp add: console_log_def world_with_def success_message_def line_feed_def code_unit_of_def)

lemma scenario_run_missing_last_three:
  "run_state (node_run report) (start (world_with truncated_document)) =
     (1, \<lparr>env = world_with truncated_document,
          stderr = report (Error (js ''Missing section: Specific Clarification Questions'')),
          calls = [Read_File path, Write_Stderr
            (report (Error (js ''Missing section: Specific Clarification Questions'')))]\<rparr>)"
  by (simp add: run_node_run start_def scenario_missing_last_three)

lemma scenario_malformed_file:
  "spec_run (disk_with (0xFF # map byte_of_unit sample_document) path) = Inl Undecodable"
  "fst (run_state (node_run report)
     (start (mount (disk_with (0xFF # map byte_of_unit sample_document)) []))) = 0"
proof -
  show "spec_run (disk_with (0xFF # map byte_of_unit sample_document) path) = Inl Undecodable"
    by (simp add: spec_run_malformed_example)
  have "list_all (\<lambda>name. sublist name sample_document) requiredSections"
    using sample_document_passes by (simp only: check_sections_Inr_iff)
  then have "validate_bytes (Inr (0xFF # map byte_of_unit sample_document)) = Inr ()"
    by (auto simp: validate_bytes_Inr_iff list_all_iff sublist_Cons_right intro: map_mono_sublist)
  then show "fst (run_state (node_run report)
      (start (mount (disk_with (0xFF # map byte_of_unit sample_document)) []))) = 0"
    by (simp add: run_on_disk_status exit_code_def)
qed

section \<open>Properties that span the components\<close>

text \<open>
  C25 (refinement).  The script and the state machine agree on success: the
  script completes normally exactly when the file can be read and the machine,
  run on its text and the six required sections, reaches \<open>Succeeded\<close>.
\<close>

theorem script_agrees_with_machine:
  "fst (script w) = Inr () \<longleftrightarrow>
     (\<exists>body. files w path = Inr body \<and>
        (step body requiredSections)\<^sup>*\<^sup>* (Checking 0) Succeeded)"
proof -
  have run: "(step body requiredSections)\<^sup>*\<^sup>* (Checking 0) Succeeded \<longleftrightarrow>
      list_all (\<lambda>s. sublist s body) requiredSections" for body
    using final_state_iff [of body requiredSections 0 Succeeded]
    by (simp add: loop_result_def first_failing_None_iff [symmetric] split: option.splits)
  show ?thesis
    by (cases w rule: script_cases)
      (auto simp: run first_failing_None_iff [symmetric])
qed

text \<open>
  C26 (functional).  The exit status is 0 exactly when the file can be read and
  the specification says \<open>Success\<close> for its text; in every other case it is 1.
\<close>

theorem exit_code_zero_iff:
  "exit_code (fst (script w)) =
     (if \<exists>body. files w path = Inr body \<and> spec_validate body = Success then 0 else 1)"
  by (cases w rule: script_cases)
    (auto simp: spec_validate_def first_failing_None_iff [symmetric] split: option.splits)

end
